theory Spec2Isabelle
  imports Complex_Main "HOL-Library.Word"
begin

unbundle bit_operations_syntax

section \<open>Data model\<close>

text \<open>
  The escrow core of the application is the set of PL/pgSQL procedures of the initial
  schema migration, together with the notification trigger of the push-notification
  migration. Tables are lists of rows in insertion order. Conventions of the embedding:
  \<^item> a \<^verbatim>\<open>UUID\<close> is a natural number; \<^verbatim>\<open>id::TEXT\<close> is injective, so the
    \<^verbatim>\<open>TEXT[]\<close> column \<^verbatim>\<open>unread_transactions\<close> holds the ids themselves;
  \<^item> every \<^verbatim>\<open>DECIMAL\<close> is counted in hundredths. A column \<^verbatim>\<open>DECIMAL(12, 2)\<close>
    holds a whole number of hundredths of at most twelve digits; the
    argument \<^verbatim>\<open>p_amount DECIMAL\<close>, which has no scale, is a rational number of
    hundredths (a number: neither \<^verbatim>\<open>NaN\<close> nor infinite). A value assigned to a
    column is rounded to a whole number of hundredths, half away from zero, and raises
    \<^verbatim>\<open>numeric field overflow\<close> when the result has more than twelve digits;
  \<^item> a timestamp is a number of microseconds since 2000-01-01, as PostgreSQL stores it;
    \<^verbatim>\<open>NOW()\<close>, which is constant within one database transaction, is a parameter
    of every procedure;
  \<^item> \<^verbatim>\<open>uuid_generate_v4()\<close> and \<^verbatim>\<open>MD5(RANDOM()::TEXT)\<close> are parameters: the
    new id, and the sequence of 128-bit digests the successive draws produce;
  \<^item> procedure arguments are not \<^verbatim>\<open>NULL\<close>, and a column with a default holds a
    value: \<^verbatim>\<open>created_at\<close> is set, and an unread list that is \<^verbatim>\<open>NULL\<close> is the
    empty list (\<^verbatim>\<open>array_append\<close> treats the two alike);
  \<^item> a procedure that raises returns \<open>Inl\<close> of the error; PostgreSQL then rolls the
    whole call back, so the committed state after an error is the state before the call.
\<close>

type_synonym uuid = nat
type_synonym money = int
type_synonym timestamp = int

record user_row =
  user_id :: uuid
  name :: string
  email :: string
  phone :: "string option"
  location :: "string option"
  vault_id :: string
  balance :: money
  escrow_balance :: money
  user_created_at :: timestamp
  unread_transactions :: "uuid list"

record condition =
  description :: string
  completed :: bool

record transaction_row =
  tx_id :: uuid
  vtid :: string
  sender_id :: uuid
  receiver_id :: uuid
  amount :: money
  status :: string
  conditions :: "condition list"
  time_limit :: int
  created_at :: timestamp
  accepted_at :: "timestamp option"
  completed_at :: "timestamp option"
  cancelled_at :: "timestamp option"

record db =
  users :: "user_row list"
  transactions :: "transaction_row list"

text \<open>
  The exceptions: \<^verbatim>\<open>Insufficient balance\<close>, \<^verbatim>\<open>Transaction not found\<close>,
  \<^verbatim>\<open>Transaction must be accepted before completion\<close> and \<^verbatim>\<open>Invalid status: %\<close>
  of the procedures; the constraint violations of the tables, with the name of the
  constraint; and the errors of the arithmetic of PostgreSQL.
\<close>

datatype error =
    Insufficient_balance
  | Transaction_not_found
  | Must_be_accepted
  | Invalid_status string
  | Check_violation string
  | Unique_violation string
  | Foreign_key_violation string
  | Numeric_field_overflow
  | Timestamp_out_of_range

text \<open>One statement after another: the first error ends the sequence.\<close>

definition and_then :: "error + 'a \<Rightarrow> ('a \<Rightarrow> error + 'b) \<Rightarrow> error + 'b" where
  "and_then r f = (case r of Inl e \<Rightarrow> Inl e | Inr x \<Rightarrow> f x)"

section \<open>Numbers and timestamps of PostgreSQL\<close>

text \<open>Rounding of a \<^verbatim>\<open>numeric\<close> to the scale of a column: half away from zero.\<close>

definition numeric_round :: "rat \<Rightarrow> int" where
  "numeric_round q = (if 0 \<le> q then \<lfloor>q + 1 / 2\<rfloor> else - \<lfloor>- q + 1 / 2\<rfloor>)"

definition fits_DECIMAL_12_2 :: "rat \<Rightarrow> bool" where
  "fits_DECIMAL_12_2 q = (\<bar>numeric_round q\<bar> < 1000000000000)"

text \<open>The assignment of a value to a column \<^verbatim>\<open>DECIMAL(12, 2)\<close>.\<close>

definition DECIMAL_12_2 :: "rat \<Rightarrow> error + money" where
  "DECIMAL_12_2 q =
     (if fits_DECIMAL_12_2 q then Inr (numeric_round q) else Inl Numeric_field_overflow)"

text \<open>
  \<^verbatim>\<open>time_limit * INTERVAL '1 hour'\<close> is an interval of that many hours, counted in
  microseconds (\<^verbatim>\<open>time_limit\<close> is an \<^verbatim>\<open>INTEGER\<close>, of 32 bits, and the product fits
  the 64 bits of an interval). \<^verbatim>\<open>timestamp + interval\<close>: the sum must be a timestamp
  PostgreSQL can hold, from 4714 BC (\<^verbatim>\<open>MIN_TIMESTAMP\<close>) to before 294277 AD
  (\<^verbatim>\<open>END_TIMESTAMP\<close>), or the addition raises \<^verbatim>\<open>timestamp out of range\<close>.
\<close>

definition hour :: int where
  "hour = 3600000000"

definition MIN_TIMESTAMP :: timestamp where
  "MIN_TIMESTAMP = - 211813488000000000"

definition END_TIMESTAMP :: timestamp where
  "END_TIMESTAMP = 9223371331200000000"

definition timestamp_pl_interval :: "timestamp \<Rightarrow> int \<Rightarrow> error + timestamp" where
  "timestamp_pl_interval t i =
     (if MIN_TIMESTAMP \<le> t + i \<and> t + i < END_TIMESTAMP then Inr (t + i)
      else Inl Timestamp_out_of_range)"

section \<open>Identifier generation\<close>

text \<open>
  \<^verbatim>\<open>MD5\<close> renders its 128-bit digest as 32 lower-case hexadecimal digits, most
  significant first.
\<close>

definition hex_digit :: "nat \<Rightarrow> char" where
  "hex_digit n = ''0123456789abcdef'' ! (n mod 16)"

definition md5_text :: "128 word \<Rightarrow> string" where
  "md5_text d = map (\<lambda>i. hex_digit (unat (drop_bit (4 * (31 - i)) d AND 15))) [0..<32]"

definition upper_char :: "char \<Rightarrow> char" where
  "upper_char c =
     (let n = (of_char c :: nat) in if 97 \<le> n \<and> n \<le> 122 then char_of (n - 32) else c)"

definition UPPER :: "string \<Rightarrow> string" where
  "UPPER s = map upper_char s"

definition SUBSTRING :: "string \<Rightarrow> nat \<Rightarrow> nat \<Rightarrow> string" where
  "SUBSTRING s start count = take count (drop (start - 1) s)"

text \<open>
  The loop of \<^verbatim>\<open>generate_vid\<close> and that of \<^verbatim>\<open>generate_vtid\<close>: draw \<open>i\<close> is the digest
  \<open>rnd i\<close>; the loop exits at the first code that no stored row carries. A loop that
  never exits is the value \<open>None\<close>.
\<close>

partial_function (option) generate_vid_loop ::
  "(nat \<Rightarrow> 128 word) \<Rightarrow> user_row list \<Rightarrow> nat \<Rightarrow> string option" where
  "generate_vid_loop rnd us i =
     (let new_vid = UPPER (SUBSTRING (md5_text (rnd i)) 1 8);
          vid_exists = list_ex (\<lambda>u. vault_id u = new_vid) us
      in if \<not> vid_exists then Some new_vid else generate_vid_loop rnd us (Suc i))"

declare generate_vid_loop.simps [code]

definition generate_vid :: "(nat \<Rightarrow> 128 word) \<Rightarrow> db \<Rightarrow> string option" where
  "generate_vid rnd d = generate_vid_loop rnd (users d) 0"

partial_function (option) generate_vtid_loop ::
  "(nat \<Rightarrow> 128 word) \<Rightarrow> transaction_row list \<Rightarrow> nat \<Rightarrow> string option" where
  "generate_vtid_loop rnd ts i =
     (let new_vtid = UPPER (SUBSTRING (md5_text (rnd i)) 1 12);
          vtid_exists = list_ex (\<lambda>t. vtid t = new_vtid) ts
      in if \<not> vtid_exists then Some new_vtid else generate_vtid_loop rnd ts (Suc i))"

declare generate_vtid_loop.simps [code]

definition generate_vtid :: "(nat \<Rightarrow> 128 word) \<Rightarrow> db \<Rightarrow> string option" where
  "generate_vtid rnd d = generate_vtid_loop rnd (transactions d) 0"

section \<open>Statements on the tables\<close>

definition select_user :: "uuid \<Rightarrow> db \<Rightarrow> user_row option" where
  "select_user p_id d = find (\<lambda>u. user_id u = p_id) (users d)"

definition select_transaction :: "uuid \<Rightarrow> db \<Rightarrow> transaction_row option" where
  "select_transaction p_id d = find (\<lambda>t. tx_id t = p_id) (transactions d)"

text \<open>
  \<^verbatim>\<open>UPDATE public.users SET ... WHERE ...\<close>: every row the condition selects is
  rewritten. \<open>update_users\<close> is an update that cannot raise (the unread lists);
  \<open>update_users_checked\<close> is one whose new values may not fit their columns: the first
  row that raises ends the statement.
\<close>

definition update_users :: "(user_row \<Rightarrow> bool) \<Rightarrow> (user_row \<Rightarrow> user_row) \<Rightarrow> db \<Rightarrow> db" where
  "update_users sel f d = d\<lparr>users := map (\<lambda>u. if sel u then f u else u) (users d)\<rparr>"

fun rows_update :: "('a \<Rightarrow> error + 'a) \<Rightarrow> 'a list \<Rightarrow> error + 'a list" where
  "rows_update f [] = Inr []"
| "rows_update f (x # xs) =
     (case f x of
        Inl e \<Rightarrow> Inl e
      | Inr y \<Rightarrow> (case rows_update f xs of Inl e \<Rightarrow> Inl e | Inr ys \<Rightarrow> Inr (y # ys)))"

definition update_users_checked ::
  "(user_row \<Rightarrow> bool) \<Rightarrow> (user_row \<Rightarrow> error + user_row) \<Rightarrow> db \<Rightarrow> error + db" where
  "update_users_checked sel f d =
     and_then (rows_update (\<lambda>u. if sel u then f u else Inr u) (users d))
       (\<lambda>us. Inr (d\<lparr>users := us\<rparr>))"

definition append_unread :: "uuid \<Rightarrow> user_row \<Rightarrow> user_row" where
  "append_unread t u = u\<lparr>unread_transactions := unread_transactions u @ [t]\<rparr>"

text \<open>
  The row trigger \<^verbatim>\<open>transaction_notification_trigger\<close> (\<^verbatim>\<open>AFTER UPDATE ON
  public.transactions FOR EACH ROW\<close>) runs \<^verbatim>\<open>notify_transaction_update\<close> on the old and
  the new version of every updated row.
\<close>

definition notify_transaction_update :: "transaction_row \<Rightarrow> transaction_row \<Rightarrow> db \<Rightarrow> db" where
  "notify_transaction_update old new d =
     (if status old \<noteq> status new then
        if status new = ''accepted'' then
          update_users (\<lambda>u. user_id u = sender_id new) (append_unread (tx_id new)) d
        else if status new = ''completed'' then
          update_users (\<lambda>u. user_id u = sender_id new \<or> user_id u = receiver_id new)
            (append_unread (tx_id new)) d
        else if status new = ''cancelled'' then
          update_users (\<lambda>u. user_id u = sender_id new \<or> user_id u = receiver_id new)
            (append_unread (tx_id new)) d
        else d
      else d)"

text \<open>
  \<^verbatim>\<open>UPDATE public.transactions SET ... WHERE id = p_id\<close>: the rows are rewritten, then
  the trigger fires for each rewritten row.
\<close>

definition update_transactions :: "uuid \<Rightarrow> (transaction_row \<Rightarrow> transaction_row) \<Rightarrow> db \<Rightarrow> db" where
  "update_transactions p_id f d =
     fold (\<lambda>t. notify_transaction_update t (f t))
       (filter (\<lambda>t. tx_id t = p_id) (transactions d))
       (d\<lparr>transactions := map (\<lambda>t. if tx_id t = p_id then f t else t) (transactions d)\<rparr>)"

text \<open>
  \<^verbatim>\<open>INSERT INTO public.transactions (vtid, sender_id, receiver_id, amount, status,
  conditions, time_limit) VALUES (...) RETURNING *\<close>, the id and \<^verbatim>\<open>created_at\<close> taking
  their defaults. PostgreSQL first brings the amount to the type of its column, then
  tests the \<^verbatim>\<open>CHECK\<close> constraints of the table in the order of their names
  (\<^verbatim>\<open>different_users\<close>, \<^verbatim>\<open>transactions_amount_check\<close>,
  \<^verbatim>\<open>transactions_status_check\<close>), then the unique indexes (primary key, \<^verbatim>\<open>vtid\<close>)
  when the row enters them, and the foreign keys when the statement ends.
\<close>

definition insert_transaction ::
  "uuid \<Rightarrow> timestamp \<Rightarrow> string \<Rightarrow> uuid \<Rightarrow> uuid \<Rightarrow> rat \<Rightarrow> string \<Rightarrow> condition list \<Rightarrow> int
     \<Rightarrow> db \<Rightarrow> error + transaction_row \<times> db" where
  "insert_transaction new_id now p_vtid p_sender_id p_receiver_id p_amount p_status
       p_conditions p_time_limit d =
     and_then (DECIMAL_12_2 p_amount) (\<lambda>a.
       let t = \<lparr>tx_id = new_id, vtid = p_vtid, sender_id = p_sender_id,
                receiver_id = p_receiver_id, amount = a, status = p_status,
                conditions = p_conditions, time_limit = p_time_limit, created_at = now,
                accepted_at = None, completed_at = None, cancelled_at = None\<rparr>
       in if \<not> sender_id t \<noteq> receiver_id t then Inl (Check_violation ''different_users'')
          else if \<not> amount t > 0 then Inl (Check_violation ''transactions_amount_check'')
          else if status t \<notin> set [''pending'', ''accepted'', ''completed'', ''cancelled'']
            then Inl (Check_violation ''transactions_status_check'')
          else if list_ex (\<lambda>r. tx_id r = tx_id t) (transactions d)
            then Inl (Unique_violation ''transactions_pkey'')
          else if list_ex (\<lambda>r. vtid r = vtid t) (transactions d)
            then Inl (Unique_violation ''transactions_vtid_key'')
          else if select_user (sender_id t) d = None
            then Inl (Foreign_key_violation ''transactions_sender_id_fkey'')
          else if select_user (receiver_id t) d = None
            then Inl (Foreign_key_violation ''transactions_receiver_id_fkey'')
          else Inr (t, d\<lparr>transactions := transactions d @ [t]\<rparr>))"

section \<open>create_transaction_with_escrow\<close>

text \<open>
  \<open>None\<close> is a call that never returns (the loop of \<^verbatim>\<open>generate_vtid\<close>). A
  \<^verbatim>\<open>SELECT ... INTO\<close> that finds no row leaves its variables \<^verbatim>\<open>NULL\<close>, and
  \<^verbatim>\<open>NULL < p_amount\<close> is not true. The guard compares the balance with the amount as
  it is given; the two assignments of the \<^verbatim>\<open>UPDATE\<close> and the \<^verbatim>\<open>INSERT\<close> round.
\<close>

definition create_transaction_with_escrow ::
  "(nat \<Rightarrow> 128 word) \<Rightarrow> uuid \<Rightarrow> timestamp \<Rightarrow> uuid \<Rightarrow> uuid \<Rightarrow> rat \<Rightarrow> condition list \<Rightarrow> int
     \<Rightarrow> db \<Rightarrow> (error + transaction_row \<times> db) option" where
  "create_transaction_with_escrow rnd new_id now p_sender_id p_receiver_id p_amount
       p_conditions p_time_limit d =
     (let sender_balance = map_option balance (select_user p_sender_id d) in
      if (case sender_balance of None \<Rightarrow> False | Some b \<Rightarrow> of_int b < p_amount)
      then Some (Inl Insufficient_balance)
      else
        (case generate_vtid rnd d of
           None \<Rightarrow> None
         | Some new_vtid \<Rightarrow>
             Some
               (and_then
                  (update_users_checked (\<lambda>u. user_id u = p_sender_id)
                     (\<lambda>u. and_then (DECIMAL_12_2 (of_int (balance u) - p_amount)) (\<lambda>b.
                           and_then (DECIMAL_12_2 (of_int (escrow_balance u) + p_amount)) (\<lambda>e.
                           Inr (u\<lparr>balance := b, escrow_balance := e\<rparr>)))) d)
                  (\<lambda>d1.
               and_then
                  (insert_transaction new_id now new_vtid p_sender_id p_receiver_id p_amount
                     ''pending'' p_conditions p_time_limit d1)
                  (\<lambda>(new_transaction, d2).
               Inr (new_transaction,
                    update_users (\<lambda>u. user_id u = p_receiver_id)
                      (append_unread (tx_id new_transaction)) d2))))))"

section \<open>update_transaction_status\<close>

text \<open>
  The sums and differences of the \<^verbatim>\<open>completed\<close> and \<^verbatim>\<open>cancelled\<close> branches are
  whole numbers of hundredths; assigned to their columns they must fit them.
\<close>

definition update_transaction_status :: "timestamp \<Rightarrow> uuid \<Rightarrow> string \<Rightarrow> db \<Rightarrow> error + db" where
  "update_transaction_status now p_transaction_id p_new_status d =
     (case select_transaction p_transaction_id d of
        None \<Rightarrow> Inl Transaction_not_found
      | Some transaction_record \<Rightarrow>
          if status transaction_record = p_new_status then Inr d
          else if p_new_status = ''accepted'' then
            Inr (update_users (\<lambda>u. user_id u = sender_id transaction_record)
                   (append_unread p_transaction_id)
                   (update_transactions p_transaction_id
                      (\<lambda>t. t\<lparr>status := ''accepted'', accepted_at := Some now\<rparr>) d))
          else if p_new_status = ''completed'' then
            if status transaction_record \<noteq> ''accepted'' then Inl Must_be_accepted
            else
              and_then
                (update_users_checked (\<lambda>u. user_id u = sender_id transaction_record)
                   (\<lambda>u. and_then
                           (DECIMAL_12_2
                              (of_int (escrow_balance u - amount transaction_record)))
                           (\<lambda>e. Inr (u\<lparr>escrow_balance := e\<rparr>)))
                   (update_transactions p_transaction_id
                      (\<lambda>t. t\<lparr>status := ''completed'', completed_at := Some now\<rparr>) d))
                (\<lambda>d2.
              and_then
                (update_users_checked (\<lambda>u. user_id u = receiver_id transaction_record)
                   (\<lambda>u. and_then
                           (DECIMAL_12_2 (of_int (balance u + amount transaction_record)))
                           (\<lambda>b. Inr (u\<lparr>balance := b\<rparr>)))
                   d2)
                (\<lambda>d3.
              Inr (update_users (\<lambda>u. user_id u = receiver_id transaction_record)
                     (append_unread p_transaction_id) d3)))
          else if p_new_status = ''cancelled'' then
            and_then
              (update_users_checked (\<lambda>u. user_id u = sender_id transaction_record)
                 (\<lambda>u. and_then
                         (DECIMAL_12_2 (of_int (balance u + amount transaction_record)))
                         (\<lambda>b.
                       and_then
                         (DECIMAL_12_2
                            (of_int (escrow_balance u - amount transaction_record)))
                         (\<lambda>e. Inr (u\<lparr>balance := b, escrow_balance := e\<rparr>))))
                 (update_transactions p_transaction_id
                    (\<lambda>t. t\<lparr>status := ''cancelled'', cancelled_at := Some now\<rparr>) d))
              (\<lambda>d2.
            Inr (update_users
                   (\<lambda>u. user_id u = sender_id transaction_record
                       \<or> user_id u = receiver_id transaction_record)
                   (append_unread p_transaction_id) d2))
          else Inl (Invalid_status p_new_status))"

section \<open>process_expired_transactions\<close>

text \<open>
  The condition of \<^verbatim>\<open>expired_cursor\<close> on one row: the deadline is computed for a
  pending row only (the test of the status comes first and decides for the others),
  and computing it can raise.
\<close>

definition expired_cursor :: "timestamp \<Rightarrow> transaction_row \<Rightarrow> error + bool" where
  "expired_cursor now t =
     (if status t = ''pending'' then
        and_then (timestamp_pl_interval (created_at t) (time_limit t * hour))
          (\<lambda>deadline. Inr (deadline < now))
      else Inr False)"

text \<open>
  The loop fetches one row of the cursor at a time. The cursor reads the table as it was
  when the loop opened it, so the rows it tests are those of that moment; the body
  reads the table as it is now.
\<close>

fun process_expired_loop :: "timestamp \<Rightarrow> transaction_row list \<Rightarrow> db \<Rightarrow> error + db" where
  "process_expired_loop now [] d = Inr d"
| "process_expired_loop now (expired_transaction # rest) d =
     (case expired_cursor now expired_transaction of
        Inl e \<Rightarrow> Inl e
      | Inr expired \<Rightarrow>
          if expired then
            (case update_transaction_status now (tx_id expired_transaction) ''cancelled'' d of
               Inl e \<Rightarrow> Inl e
             | Inr d' \<Rightarrow> process_expired_loop now rest d')
          else process_expired_loop now rest d)"

definition process_expired_transactions :: "timestamp \<Rightarrow> db \<Rightarrow> error + db" where
  "process_expired_transactions now d = process_expired_loop now (transactions d) d"

section \<open>Vocabulary of the specification\<close>

text \<open>An upper-case alphanumeric character.\<close>

definition upper_alnum :: "char \<Rightarrow> bool" where
  "upper_alnum c = (c \<in> set ''0123456789ABCDEFGHIJKLMNOPQRSTUVWXYZ'')"

text \<open>
  A row of \<^verbatim>\<open>public.users\<close> as an \<^verbatim>\<open>INSERT\<close> that gives id, name, email and
  vault id leaves it: the other columns take the defaults of the table (a balance of
  1000.00, an empty escrow, no unread transaction).
\<close>

definition new_user :: "uuid \<Rightarrow> string \<Rightarrow> string \<Rightarrow> string \<Rightarrow> timestamp \<Rightarrow> user_row" where
  "new_user i n e v now =
     \<lparr>user_id = i, name = n, email = e, phone = None, location = None, vault_id = v,
      balance = 100000, escrow_balance = 0, user_created_at = now, unread_transactions = []\<rparr>"

text \<open>The ledger: id, balance and escrow balance of every user, in table order.\<close>

definition ledger :: "db \<Rightarrow> (uuid \<times> money \<times> money) list" where
  "ledger d = map (\<lambda>u. (user_id u, balance u, escrow_balance u)) (users d)"

text \<open>
  A transaction the sweep is after: pending, with \<^verbatim>\<open>created_at\<close> plus \<^verbatim>\<open>time_limit\<close>
  hours before the time of the call. And a row whose deadline is a timestamp.
\<close>

definition expired :: "timestamp \<Rightarrow> transaction_row \<Rightarrow> bool" where
  "expired now t = (status t = ''pending'' \<and> created_at t + time_limit t * hour < now)"

definition deadline_valid :: "transaction_row \<Rightarrow> bool" where
  "deadline_valid t =
     (MIN_TIMESTAMP \<le> created_at t + time_limit t * hour
      \<and> created_at t + time_limit t * hour < END_TIMESTAMP)"

text \<open>What a user has sent in the transactions of a list.\<close>

definition sent_total :: "uuid \<Rightarrow> transaction_row list \<Rightarrow> money" where
  "sent_total i ts = sum_list (map amount (filter (\<lambda>t. sender_id t = i) ts))"

text \<open>What a user holds in escrow: the amounts of the user's pending and accepted transactions.\<close>

definition held :: "uuid \<Rightarrow> transaction_row list \<Rightarrow> money" where
  "held i ts =
     sum_list (map amount
       (filter (\<lambda>t. sender_id t = i \<and> (status t = ''pending'' \<or> status t = ''accepted'')) ts))"

text \<open>
  The escrow-balance invariant of the specification: the escrow balance of every user is
  the sum of the amounts of the pending and accepted transactions the user has sent, and
  no balance and no escrow balance is negative.
\<close>

definition escrow_invariant :: "db \<Rightarrow> bool" where
  "escrow_invariant d =
     list_all
       (\<lambda>u. escrow_balance u = held (user_id u) (transactions d)
            \<and> 0 \<le> balance u \<and> 0 \<le> escrow_balance u)
       (users d)"

text \<open>
  The constraints of the two tables that the invariant rests on: the primary keys and
  \<^verbatim>\<open>CHECK (amount > 0)\<close>.
\<close>

definition table_constraints :: "db \<Rightarrow> bool" where
  "table_constraints d =
     (distinct (map user_id (users d)) \<and> distinct (map tx_id (transactions d))
      \<and> list_all (\<lambda>t. 0 < amount t) (transactions d))"

text \<open>The transitions of the state machine of the specification.\<close>

definition legal_transition :: "string \<Rightarrow> string \<Rightarrow> bool" where
  "legal_transition old new =
     (old = ''pending'' \<and> (new = ''accepted'' \<or> new = ''cancelled'')
      \<or> old = ''accepted'' \<and> (new = ''completed'' \<or> new = ''cancelled''))"

text \<open>
  An initial state: no transaction, every escrow balance zero, no balance negative, and
  user ids distinct (the primary key).
\<close>

definition initial_state :: "db \<Rightarrow> bool" where
  "initial_state d =
     (transactions d = [] \<and> distinct (map user_id (users d))
      \<and> list_all (\<lambda>u. escrow_balance u = 0 \<and> 0 \<le> balance u) (users d))"

text \<open>
  The database after the statement that called a procedure: PostgreSQL undoes every write
  of a statement that raises, and the procedures write only inside a block whose handler
  raises again.
\<close>

definition committed :: "db \<Rightarrow> error + db \<Rightarrow> db" where
  "committed d r = (case r of Inl e \<Rightarrow> d | Inr d' \<Rightarrow> d')"

definition committed_create :: "db \<Rightarrow> error + transaction_row \<times> db \<Rightarrow> db" where
  "committed_create d r = (case r of Inl e \<Rightarrow> d | Inr (t, d') \<Rightarrow> d')"

text \<open>
  The three operations as calls in sequence, each a statement of its own: the state after
  a call that raises, or that never returns, is the state before it.
\<close>

datatype operation =
    Create "nat \<Rightarrow> 128 word" uuid timestamp uuid uuid rat "condition list" int
  | Update_status timestamp uuid string
  | Sweep timestamp

fun apply_operation :: "operation \<Rightarrow> db \<Rightarrow> db" where
  "apply_operation (Create rnd new_id now s r amt conds hrs) d =
     (case create_transaction_with_escrow rnd new_id now s r amt conds hrs d of
        None \<Rightarrow> d
      | Some res \<Rightarrow> committed_create d res)"
| "apply_operation (Update_status now p_id st) d =
     committed d (update_transaction_status now p_id st d)"
| "apply_operation (Sweep now) d = committed d (process_expired_transactions now d)"

definition run_operations :: "operation list \<Rightarrow> db \<Rightarrow> db" where
  "run_operations ops d = fold apply_operation ops d"

text \<open>
  A call that stays inside the state machine of the specification: a status update is
  legal when it makes one of the transitions of the state machine or changes nothing.
\<close>

fun legal_operation :: "operation \<Rightarrow> db \<Rightarrow> bool" where
  "legal_operation (Update_status now p_id st) d =
     (case select_transaction p_id d of
        None \<Rightarrow> True
      | Some r \<Rightarrow>
          legal_transition (status r) st
          \<or> committed d (update_transaction_status now p_id st d) = d)"
| "legal_operation (Create rnd new_id now s r amt conds hrs) d = True"
| "legal_operation (Sweep now) d = True"

fun legal_run :: "operation list \<Rightarrow> db \<Rightarrow> bool" where
  "legal_run [] d = True"
| "legal_run (x # xs) d = (legal_operation x d \<and> legal_run xs (apply_operation x d))"

section \<open>The client\<close>

text \<open>
  \<^verbatim>\<open>validateTransaction\<close> of the send-money screen, on the screen's list of conditions
  and on \<^verbatim>\<open>parseInt(timeLimit)\<close>, which is \<open>None\<close> when it is \<^verbatim>\<open>NaN\<close>. The alerts
  it shows are left out.
\<close>

definition MIN_CONDITIONS :: nat where
  "MIN_CONDITIONS = 1"

definition validateTransaction :: "condition list \<Rightarrow> int option \<Rightarrow> bool" where
  "validateTransaction conds timeLimitNum =
     (if length conds < MIN_CONDITIONS then False
      else if (case timeLimitNum of None \<Rightarrow> True | Some n \<Rightarrow> n < 1) then False
      else True)"

text \<open>
  \<^verbatim>\<open>handleMarkCondition\<close> of the transaction details: the updates it sends, in order,
  when each of them succeeds. An index outside the list makes
  \<^verbatim>\<open>newConditions[index].completed = completed\<close> throw, and nothing is sent.
\<close>

datatype client_update = Set_conditions "condition list" | Set_status string

definition handleMarkCondition :: "transaction_row \<Rightarrow> nat \<Rightarrow> bool \<Rightarrow> client_update list option" where
  "handleMarkCondition transaction index c =
     (if index < length (conditions transaction) then
        (let newConditions =
               (conditions transaction)
                 [index := (conditions transaction ! index)\<lparr>completed := c\<rparr>];
             allConditionsMet = list_all completed newConditions
         in Some (Set_conditions newConditions
                  # (if allConditionsMet then [Set_status ''completed''] else [])))
      else None)"

section \<open>Example data\<close>

definition alice :: user_row where
  "alice = new_user 1 ''Alice'' ''alice@example.org'' ''00000000'' 0"

definition bob :: user_row where
  "bob = new_user 2 ''Bob'' ''bob@example.org'' ''0A1B2C3D'' 0"

definition digests :: "nat \<Rightarrow> 128 word" where
  "digests i = (if i = 0 then 0 else 0xabcdef0123456789abcdef0123456789)"

definition two_users :: db where
  "two_users = \<lparr>users = [alice, bob], transactions = []\<rparr>"

text \<open>
  Alice has sent 500.00 to Bob under one condition, with one hour to run, at time 0. The
  transaction is in the given status, and the balances are those the status leaves:
  the amount in Alice's escrow while it is pending or accepted, with Bob once it is
  completed, back with Alice once it is cancelled.
\<close>

definition sale :: "string \<Rightarrow> bool \<Rightarrow> transaction_row" where
  "sale st c =
     \<lparr>tx_id = 10, vtid = ''000000000000'', sender_id = 1, receiver_id = 2, amount = 50000,
      status = st, conditions = [\<lparr>description = ''goods delivered'', completed = c\<rparr>],
      time_limit = 1, created_at = 0,
      accepted_at = (if st = ''pending'' then None else Some 60000000),
      completed_at = (if st = ''completed'' then Some 120000000 else None),
      cancelled_at = (if st = ''cancelled'' then Some 120000000 else None)\<rparr>"

definition after_sale :: "string \<Rightarrow> bool \<Rightarrow> db" where
  "after_sale st c =
     \<lparr>users =
        [alice\<lparr>balance := (if st = ''cancelled'' then 100000 else 50000),
               escrow_balance := (if st = ''pending'' \<or> st = ''accepted'' then 50000 else 0)\<rparr>,
         bob\<lparr>balance := (if st = ''completed'' then 150000 else 100000)\<rparr>],
      transactions = [sale st c]\<rparr>"

text \<open>The same with the balance of one user at the most the column holds, 9999999999.99.\<close>

definition full_purse :: "uuid \<Rightarrow> db \<Rightarrow> db" where
  "full_purse i d =
     d\<lparr>users := map (\<lambda>u. if user_id u = i then u\<lparr>balance := 999999999999\<rparr> else u) (users d)\<rparr>"

text \<open>
  Three transactions made at time 0: 500.00 from Alice to Bob with one hour to run and
  100.00 from Alice to Bob with five hours to run, both pending, and 200.00 from Bob to
  Alice with one hour to run, accepted after one minute.
\<close>

definition sweep_table :: db where
  "sweep_table =
     \<lparr>users =
        [alice\<lparr>balance := 40000, escrow_balance := 60000\<rparr>,
         bob\<lparr>balance := 80000, escrow_balance := 20000\<rparr>],
      transactions =
        [sale ''pending'' False,
         (sale ''pending'' False)\<lparr>tx_id := 11, vtid := ''000000000001'', amount := 10000,
                                   time_limit := 5\<rparr>,
         (sale ''accepted'' False)\<lparr>tx_id := 12, vtid := ''000000000002'', sender_id := 2,
                                    receiver_id := 1, amount := 20000\<rparr>]\<rparr>"

text \<open>
  The same tables with one more pending transaction, whose \<^verbatim>\<open>time_limit\<close> of
  -100000000 hours puts its deadline before the first timestamp there is.
\<close>

definition bad_deadline :: "db \<Rightarrow> db" where
  "bad_deadline d =
     d\<lparr>transactions := transactions d
        @ [(sale ''pending'' False)\<lparr>tx_id := 13, vtid := ''000000000003'',
                                     time_limit := - 100000000\<rparr>]\<rparr>"

section \<open>Identifier generation: the codes and the loop\<close>

lemma upper_hex_digit_all: "\<forall>k\<in>set [0..<16]. upper_alnum (upper_char (hex_digit k))"
  by code_simp

lemma upper_hex_digit: "upper_alnum (upper_char (hex_digit n))"
proof -
  have "n mod 16 \<in> set [0..<16]" by simp
  then have "upper_alnum (upper_char (hex_digit (n mod 16)))"
    using upper_hex_digit_all by blast
  then show ?thesis by (simp add: hex_digit_def)
qed

lemma length_md5_text: "length (md5_text w) = 32"
  by (simp add: md5_text_def)

lemma md5_text_alnum: "list_all upper_alnum (UPPER (SUBSTRING (md5_text w) 1 n))"
  by (auto simp: list_all_iff UPPER_def SUBSTRING_def md5_text_def upper_hex_digit dest!: in_set_takeD)

lemma length_code: "n \<le> 32 \<Longrightarrow> length (UPPER (SUBSTRING (md5_text w) 1 n)) = n"
  by (simp add: UPPER_def SUBSTRING_def length_md5_text)

lemma generate_vid_loop_Some:
  assumes "generate_vid_loop rnd us i = Some c"
  shows "\<exists>n\<ge>i. c = UPPER (SUBSTRING (md5_text (rnd n)) 1 8) \<and> \<not> list_ex (\<lambda>u. vault_id u = c) us"
proof (rule generate_vid_loop.raw_induct
    [where P = "\<lambda>rnd us i c. \<exists>n\<ge>i. c = UPPER (SUBSTRING (md5_text (rnd n)) 1 8)
                   \<and> \<not> list_ex (\<lambda>u. vault_id u = c) us", OF _ assms])
  fix f rnd us i c
  assume IH: "\<And>rnd us i c. f rnd us i = Some c \<Longrightarrow>
      \<exists>n\<ge>i. c = UPPER (SUBSTRING (md5_text (rnd n)) 1 8) \<and> \<not> list_ex (\<lambda>u. vault_id u = c) us"
    and step: "(let new_vid = UPPER (SUBSTRING (md5_text (rnd i)) 1 8);
          vid_exists = list_ex (\<lambda>u. vault_id u = new_vid) us
      in if \<not> vid_exists then Some new_vid else f rnd us (Suc i)) = Some c"
  show "\<exists>n\<ge>i. c = UPPER (SUBSTRING (md5_text (rnd n)) 1 8) \<and> \<not> list_ex (\<lambda>u. vault_id u = c) us"
  proof (cases "list_ex (\<lambda>u. vault_id u = UPPER (SUBSTRING (md5_text (rnd i)) 1 8)) us")
    case True
    with step have "f rnd us (Suc i) = Some c" by (simp add: Let_def)
    from IH [OF this] obtain n where n: "Suc i \<le> n"
      "c = UPPER (SUBSTRING (md5_text (rnd n)) 1 8)" "\<not> list_ex (\<lambda>u. vault_id u = c) us"
      by blast
    from n(1) have "i \<le> n" by simp
    with n(2,3) show ?thesis by blast
  next
    case False
    with step have "c = UPPER (SUBSTRING (md5_text (rnd i)) 1 8)" by (simp add: Let_def)
    with False show ?thesis by blast
  qed
qed

lemma generate_vid_loop_first:
  assumes "\<not> list_ex (\<lambda>u. vault_id u = UPPER (SUBSTRING (md5_text (rnd n)) 1 8)) us"
    and "\<forall>k. i \<le> k \<and> k < n \<longrightarrow> list_ex (\<lambda>u. vault_id u = UPPER (SUBSTRING (md5_text (rnd k)) 1 8)) us"
    and "i \<le> n"
  shows "generate_vid_loop rnd us i = Some (UPPER (SUBSTRING (md5_text (rnd n)) 1 8))"
  using assms
proof (induction "n - i" arbitrary: i)
  case 0
  then have "i = n" by simp
  with 0 show ?case by (subst generate_vid_loop.simps) (simp add: Let_def)
next
  case (Suc m)
  then have lt: "i < n" by simp
  with Suc.prems have ex: "list_ex (\<lambda>u. vault_id u = UPPER (SUBSTRING (md5_text (rnd i)) 1 8)) us"
    by simp
  have "generate_vid_loop rnd us (Suc i) = Some (UPPER (SUBSTRING (md5_text (rnd n)) 1 8))"
    using Suc lt by (intro Suc.hyps) auto
  with ex show ?case by (subst generate_vid_loop.simps) (simp add: Let_def)
qed

lemma generate_vtid_loop_Some:
  assumes "generate_vtid_loop rnd us i = Some c"
  shows "\<exists>n\<ge>i. c = UPPER (SUBSTRING (md5_text (rnd n)) 1 12) \<and> \<not> list_ex (\<lambda>u. vtid u = c) us"
proof (rule generate_vtid_loop.raw_induct
    [where P = "\<lambda>rnd us i c. \<exists>n\<ge>i. c = UPPER (SUBSTRING (md5_text (rnd n)) 1 12)
                   \<and> \<not> list_ex (\<lambda>u. vtid u = c) us", OF _ assms])
  fix f rnd us i c
  assume IH: "\<And>rnd us i c. f rnd us i = Some c \<Longrightarrow>
      \<exists>n\<ge>i. c = UPPER (SUBSTRING (md5_text (rnd n)) 1 12) \<and> \<not> list_ex (\<lambda>u. vtid u = c) us"
    and step: "(let new_vtid = UPPER (SUBSTRING (md5_text (rnd i)) 1 12);
          vtid_exists = list_ex (\<lambda>u. vtid u = new_vtid) us
      in if \<not> vtid_exists then Some new_vtid else f rnd us (Suc i)) = Some c"
  show "\<exists>n\<ge>i. c = UPPER (SUBSTRING (md5_text (rnd n)) 1 12) \<and> \<not> list_ex (\<lambda>u. vtid u = c) us"
  proof (cases "list_ex (\<lambda>u. vtid u = UPPER (SUBSTRING (md5_text (rnd i)) 1 12)) us")
    case True
    with step have "f rnd us (Suc i) = Some c" by (simp add: Let_def)
    from IH [OF this] obtain n where n: "Suc i \<le> n"
      "c = UPPER (SUBSTRING (md5_text (rnd n)) 1 12)" "\<not> list_ex (\<lambda>u. vtid u = c) us"
      by blast
    from n(1) have "i \<le> n" by simp
    with n(2,3) show ?thesis by blast
  next
    case False
    with step have "c = UPPER (SUBSTRING (md5_text (rnd i)) 1 12)" by (simp add: Let_def)
    with False show ?thesis by blast
  qed
qed

lemma generate_vtid_loop_first:
  assumes "\<not> list_ex (\<lambda>u. vtid u = UPPER (SUBSTRING (md5_text (rnd n)) 1 12)) us"
    and "\<forall>k. i \<le> k \<and> k < n \<longrightarrow> list_ex (\<lambda>u. vtid u = UPPER (SUBSTRING (md5_text (rnd k)) 1 12)) us"
    and "i \<le> n"
  shows "generate_vtid_loop rnd us i = Some (UPPER (SUBSTRING (md5_text (rnd n)) 1 12))"
  using assms
proof (induction "n - i" arbitrary: i)
  case 0
  then have "i = n" by simp
  with 0 show ?case by (subst generate_vtid_loop.simps) (simp add: Let_def)
next
  case (Suc m)
  then have lt: "i < n" by simp
  with Suc.prems have ex: "list_ex (\<lambda>u. vtid u = UPPER (SUBSTRING (md5_text (rnd i)) 1 12)) us"
    by simp
  have "generate_vtid_loop rnd us (Suc i) = Some (UPPER (SUBSTRING (md5_text (rnd n)) 1 12))"
    using Suc lt by (intro Suc.hyps) auto
  with ex show ?case by (subst generate_vtid_loop.simps) (simp add: Let_def)
qed

lemma generate_vid_first_free:
  assumes "\<not> list_ex (\<lambda>u. vault_id u = UPPER (SUBSTRING (md5_text (rnd n)) 1 8)) (users d)"
  shows "\<exists>k. generate_vid rnd d = Some (UPPER (SUBSTRING (md5_text (rnd k)) 1 8))
           \<and> \<not> list_ex (\<lambda>u. vault_id u = UPPER (SUBSTRING (md5_text (rnd k)) 1 8)) (users d)
           \<and> (\<forall>j<k. list_ex (\<lambda>u. vault_id u = UPPER (SUBSTRING (md5_text (rnd j)) 1 8)) (users d))"
proof -
  define free where
    "free = (\<lambda>j. \<not> list_ex (\<lambda>u. vault_id u = UPPER (SUBSTRING (md5_text (rnd j)) 1 8)) (users d))"
  define k where "k = (LEAST j. free j)"
  have "free n" using assms by (simp add: free_def)
  then have k: "free k" unfolding k_def by (rule LeastI)
  have below: "\<not> free j" if "j < k" for j
    using that unfolding k_def by (rule not_less_Least)
  have "generate_vid_loop rnd (users d) 0 = Some (UPPER (SUBSTRING (md5_text (rnd k)) 1 8))"
  proof (rule generate_vid_loop_first)
    show "\<not> list_ex (\<lambda>u. vault_id u = UPPER (SUBSTRING (md5_text (rnd k)) 1 8)) (users d)"
      using k by (simp add: free_def)
    show "\<forall>j. 0 \<le> j \<and> j < k \<longrightarrow>
        list_ex (\<lambda>u. vault_id u = UPPER (SUBSTRING (md5_text (rnd j)) 1 8)) (users d)"
      using below by (simp add: free_def)
    show "0 \<le> k" by simp
  qed
  moreover have "\<not> list_ex (\<lambda>u. vault_id u = UPPER (SUBSTRING (md5_text (rnd k)) 1 8)) (users d)"
    using k by (simp add: free_def)
  moreover have "\<forall>j<k. list_ex (\<lambda>u. vault_id u = UPPER (SUBSTRING (md5_text (rnd j)) 1 8)) (users d)"
    using below by (simp add: free_def)
  ultimately show ?thesis unfolding generate_vid_def by blast
qed

lemma generate_vtid_first_free:
  assumes "\<not> list_ex (\<lambda>u. vtid u = UPPER (SUBSTRING (md5_text (rnd n)) 1 12)) (transactions d)"
  shows "\<exists>k. generate_vtid rnd d = Some (UPPER (SUBSTRING (md5_text (rnd k)) 1 12))
           \<and> \<not> list_ex (\<lambda>u. vtid u = UPPER (SUBSTRING (md5_text (rnd k)) 1 12)) (transactions d)
           \<and> (\<forall>j<k. list_ex (\<lambda>u. vtid u = UPPER (SUBSTRING (md5_text (rnd j)) 1 12)) (transactions d))"
proof -
  define free where
    "free = (\<lambda>j. \<not> list_ex (\<lambda>u. vtid u = UPPER (SUBSTRING (md5_text (rnd j)) 1 12)) (transactions d))"
  define k where "k = (LEAST j. free j)"
  have "free n" using assms by (simp add: free_def)
  then have k: "free k" unfolding k_def by (rule LeastI)
  have below: "\<not> free j" if "j < k" for j
    using that unfolding k_def by (rule not_less_Least)
  have "generate_vtid_loop rnd (transactions d) 0 = Some (UPPER (SUBSTRING (md5_text (rnd k)) 1 12))"
  proof (rule generate_vtid_loop_first)
    show "\<not> list_ex (\<lambda>u. vtid u = UPPER (SUBSTRING (md5_text (rnd k)) 1 12)) (transactions d)"
      using k by (simp add: free_def)
    show "\<forall>j. 0 \<le> j \<and> j < k \<longrightarrow>
        list_ex (\<lambda>u. vtid u = UPPER (SUBSTRING (md5_text (rnd j)) 1 12)) (transactions d)"
      using below by (simp add: free_def)
    show "0 \<le> k" by simp
  qed
  moreover have "\<not> list_ex (\<lambda>u. vtid u = UPPER (SUBSTRING (md5_text (rnd k)) 1 12)) (transactions d)"
    using k by (simp add: free_def)
  moreover have "\<forall>j<k. list_ex (\<lambda>u. vtid u = UPPER (SUBSTRING (md5_text (rnd j)) 1 12)) (transactions d)"
    using below by (simp add: free_def)
  ultimately show ?thesis unfolding generate_vtid_def by blast
qed

text \<open>
  Claim C9. \<^verbatim>\<open>generate_vid\<close> returns a code of 8 upper-case alphanumeric characters
  that no row of \<^verbatim>\<open>users\<close> carries as its \<^verbatim>\<open>vault_id\<close>, and \<^verbatim>\<open>generate_vtid\<close>
  a code of 12 such characters that no row of \<^verbatim>\<open>transactions\<close> carries as its
  \<^verbatim>\<open>vtid\<close>. The loop has no bound on its retries: whenever some draw gives a free
  code, the function returns the code of the first such draw \<open>k\<close>, after \<open>k\<close> draws that
  all collided.
\<close>

theorem generate_identifiers:
  assumes "\<not> list_ex (\<lambda>u. vault_id u = UPPER (SUBSTRING (md5_text (rnd n)) 1 8)) (users d)"
    and "\<not> list_ex (\<lambda>t. vtid t = UPPER (SUBSTRING (md5_text (rnd' m)) 1 12)) (transactions d)"
  shows "(\<exists>c k. generate_vid rnd d = Some c \<and> length c = 8 \<and> list_all upper_alnum c
            \<and> \<not> list_ex (\<lambda>u. vault_id u = c) (users d)
            \<and> c = UPPER (SUBSTRING (md5_text (rnd k)) 1 8)
            \<and> (\<forall>j<k. list_ex (\<lambda>u. vault_id u = UPPER (SUBSTRING (md5_text (rnd j)) 1 8)) (users d)))
       \<and> (\<exists>c k. generate_vtid rnd' d = Some c \<and> length c = 12 \<and> list_all upper_alnum c
            \<and> \<not> list_ex (\<lambda>t. vtid t = c) (transactions d)
            \<and> c = UPPER (SUBSTRING (md5_text (rnd' k)) 1 12)
            \<and> (\<forall>j<k. list_ex (\<lambda>t. vtid t = UPPER (SUBSTRING (md5_text (rnd' j)) 1 12)) (transactions d)))"
proof (rule conjI)
  from generate_vid_first_free [of rnd n d, OF assms(1)] obtain k where
    k: "generate_vid rnd d = Some (UPPER (SUBSTRING (md5_text (rnd k)) 1 8))"
       "\<not> list_ex (\<lambda>u. vault_id u = UPPER (SUBSTRING (md5_text (rnd k)) 1 8)) (users d)"
       "\<forall>j<k. list_ex (\<lambda>u. vault_id u = UPPER (SUBSTRING (md5_text (rnd j)) 1 8)) (users d)"
    by blast
  have "length (UPPER (SUBSTRING (md5_text (rnd k)) 1 8)) = 8" by (rule length_code) simp
  moreover have "list_all upper_alnum (UPPER (SUBSTRING (md5_text (rnd k)) 1 8))"
    by (rule md5_text_alnum)
  ultimately show "\<exists>c k. generate_vid rnd d = Some c \<and> length c = 8 \<and> list_all upper_alnum c
            \<and> \<not> list_ex (\<lambda>u. vault_id u = c) (users d)
            \<and> c = UPPER (SUBSTRING (md5_text (rnd k)) 1 8)
            \<and> (\<forall>j<k. list_ex (\<lambda>u. vault_id u = UPPER (SUBSTRING (md5_text (rnd j)) 1 8)) (users d))"
    using k by blast
next
  from generate_vtid_first_free [of rnd' m d, OF assms(2)] obtain k where
    k: "generate_vtid rnd' d = Some (UPPER (SUBSTRING (md5_text (rnd' k)) 1 12))"
       "\<not> list_ex (\<lambda>t. vtid t = UPPER (SUBSTRING (md5_text (rnd' k)) 1 12)) (transactions d)"
       "\<forall>j<k. list_ex (\<lambda>t. vtid t = UPPER (SUBSTRING (md5_text (rnd' j)) 1 12)) (transactions d)"
    by blast
  have "length (UPPER (SUBSTRING (md5_text (rnd' k)) 1 12)) = 12" by (rule length_code) simp
  moreover have "list_all upper_alnum (UPPER (SUBSTRING (md5_text (rnd' k)) 1 12))"
    by (rule md5_text_alnum)
  ultimately show "\<exists>c k. generate_vtid rnd' d = Some c \<and> length c = 12 \<and> list_all upper_alnum c
            \<and> \<not> list_ex (\<lambda>t. vtid t = c) (transactions d)
            \<and> c = UPPER (SUBSTRING (md5_text (rnd' k)) 1 12)
            \<and> (\<forall>j<k. list_ex (\<lambda>t. vtid t = UPPER (SUBSTRING (md5_text (rnd' j)) 1 12)) (transactions d))"
    using k by blast
qed

theorem generate_identifiers_witness:
  "\<not> list_ex (\<lambda>u. vault_id u = UPPER (SUBSTRING (md5_text (digests 1)) 1 8)) (users two_users)
   \<and> \<not> list_ex (\<lambda>t. vtid t = UPPER (SUBSTRING (md5_text (digests 0)) 1 12)) (transactions two_users)
   \<and> (\<exists>c k. generate_vid digests two_users = Some c \<and> length c = 8 \<and> list_all upper_alnum c
            \<and> \<not> list_ex (\<lambda>u. vault_id u = c) (users two_users)
            \<and> c = UPPER (SUBSTRING (md5_text (digests k)) 1 8)
            \<and> (\<forall>j<k. list_ex (\<lambda>u. vault_id u = UPPER (SUBSTRING (md5_text (digests j)) 1 8)) (users two_users)))
   \<and> (\<exists>c k. generate_vtid digests two_users = Some c \<and> length c = 12 \<and> list_all upper_alnum c
            \<and> \<not> list_ex (\<lambda>t. vtid t = c) (transactions two_users)
            \<and> c = UPPER (SUBSTRING (md5_text (digests k)) 1 12)
            \<and> (\<forall>j<k. list_ex (\<lambda>t. vtid t = UPPER (SUBSTRING (md5_text (digests j)) 1 12)) (transactions two_users)))"
proof -
  have h1: "\<not> list_ex (\<lambda>u. vault_id u = UPPER (SUBSTRING (md5_text (digests 1)) 1 8)) (users two_users)"
    by code_simp
  have h2: "\<not> list_ex (\<lambda>t. vtid t = UPPER (SUBSTRING (md5_text (digests 0)) 1 12)) (transactions two_users)"
    by code_simp
  from generate_identifiers [of digests 1 two_users digests 0, OF h1 h2] h1 h2
  show ?thesis by (intro conjI) (elim conjE, assumption)+
qed

section \<open>Facts about the numbers and the statements\<close>

lemma and_then_Inl [simp]: "and_then (Inl e) f = Inl e"
  by (simp add: and_then_def)

lemma and_then_Inr [simp]: "and_then (Inr x) f = f x"
  by (simp add: and_then_def)

lemma and_then_if:
  "and_then (if c then Inr x else Inl e) f = (if c then f x else Inl e)"
  by simp

lemma numeric_round_of_int [simp]: "numeric_round (of_int n) = n"
proof -
  have "\<lfloor>(of_int n :: rat) + 1 / 2\<rfloor> = n" by linarith
  moreover have "\<lfloor>- (of_int n :: rat) + 1 / 2\<rfloor> = - n" by linarith
  ultimately show ?thesis by (simp add: numeric_round_def)
qed

lemma numeric_round_nonneg: "0 \<le> q \<Longrightarrow> 0 \<le> numeric_round q"
  by (simp add: numeric_round_def)

lemma numeric_round_pos: "0 < numeric_round q \<Longrightarrow> 0 < q"
  by (auto simp: numeric_round_def split: if_splits)

lemma numeric_round_add_int:
  assumes "0 \<le> q" and "0 \<le> e"
  shows "numeric_round (of_int e + q) = e + numeric_round q"
proof -
  have "\<lfloor>of_int e + q + 1 / 2\<rfloor> = e + \<lfloor>q + 1 / 2\<rfloor>"
    by (metis add.assoc floor_add_int add.commute)
  with assms show ?thesis by (simp add: numeric_round_def)
qed

lemma fits_of_int: "fits_DECIMAL_12_2 (of_int n) \<longleftrightarrow> \<bar>n\<bar> < 1000000000000"
  by (simp add: fits_DECIMAL_12_2_def)

lemma DECIMAL_12_2_of_int:
  "DECIMAL_12_2 (of_int n) = (if \<bar>n\<bar> < 1000000000000 then Inr n else Inl Numeric_field_overflow)"
  by (simp add: DECIMAL_12_2_def fits_of_int)

lemma rows_update_eq:
  assumes "\<And>x. x \<in> set xs \<Longrightarrow> f x = (if P x then Inr (g x) else Inl e)"
  shows "rows_update f xs = (if list_all P xs then Inr (map g xs) else Inl e)"
  using assms by (induction xs) simp_all

lemma update_users_checked_eq:
  assumes "\<And>u. sel u \<Longrightarrow> f u = (if P u then Inr (g u) else Inl e)"
  shows "update_users_checked sel f d =
     (if list_all (\<lambda>u. sel u \<longrightarrow> P u) (users d) then Inr (update_users sel g d) else Inl e)"
proof -
  have "rows_update (\<lambda>u. if sel u then f u else Inr u) (users d)
      = (if list_all (\<lambda>u. sel u \<longrightarrow> P u) (users d)
         then Inr (map (\<lambda>u. if sel u then g u else u) (users d)) else Inl e)"
    by (rule rows_update_eq) (simp add: assms)
  then show ?thesis by (simp add: update_users_checked_def update_users_def)
qed

lemma select_user_None: "select_user p d = None \<longleftrightarrow> \<not> list_ex (\<lambda>u. user_id u = p) (users d)"
  by (auto simp: select_user_def find_None_iff list_ex_iff)

lemma update_users_absent:
  "select_user p d = None \<Longrightarrow> update_users (\<lambda>u. user_id u = p) f d = d"
  by (simp add: select_user_None update_users_def list_ex_iff map_idI)

lemma update_users_checked_absent:
  "select_user p d = None \<Longrightarrow> update_users_checked (\<lambda>u. user_id u = p) f d = Inr d"
proof -
  assume a: "select_user p d = None"
  have "rows_update (\<lambda>u. if user_id u = p then f u else Inr u) (users d)
      = (if list_all (\<lambda>u. True) (users d) then Inr (map (\<lambda>u. u) (users d)) else Inl Numeric_field_overflow)"
    using a by (intro rows_update_eq) (auto simp: select_user_None list_ex_iff)
  then show ?thesis by (simp add: update_users_checked_def list_all_iff)
qed

lemma find_map_key:
  assumes "\<And>u. key (g u) = key u"
  shows "find (\<lambda>u. key u = p) (map g us) = map_option g (find (\<lambda>u. key u = p) us)"
  by (induction us) (simp_all add: assms)

lemma select_user_update_users:
  assumes "\<And>u. user_id (f u) = user_id u"
  shows "select_user p (update_users sel f d)
     = map_option (\<lambda>u. if sel u then f u else u) (select_user p d)"
  unfolding select_user_def update_users_def
  by (simp add: find_map_key [where key = user_id] assms)

lemma select_user_transactions [simp]:
  "select_user p (d\<lparr>transactions := ts\<rparr>) = select_user p d"
  by (simp add: select_user_def)

lemma transactions_update_users [simp]:
  "transactions (update_users sel f d) = transactions d"
  by (simp add: update_users_def)

lemma user_id_append_unread [simp]: "user_id (append_unread t u) = user_id u"
  by (simp add: append_unread_def)

lemma generate_vtid_fresh:
  "generate_vtid rnd d = Some v \<Longrightarrow> \<not> list_ex (\<lambda>t. vtid t = v) (transactions d)"
  unfolding generate_vtid_def by (drule generate_vtid_loop_Some) blast

section \<open>Creation\<close>

lemma debit_eq:
  "and_then (DECIMAL_12_2 (of_int (balance u) - amt)) (\<lambda>b.
     and_then (DECIMAL_12_2 (of_int (escrow_balance u) + amt)) (\<lambda>e.
       Inr (u\<lparr>balance := b, escrow_balance := e\<rparr>)))
   = (if fits_DECIMAL_12_2 (of_int (balance u) - amt)
         \<and> fits_DECIMAL_12_2 (of_int (escrow_balance u) + amt)
      then Inr (u\<lparr>balance := numeric_round (of_int (balance u) - amt),
                   escrow_balance := numeric_round (of_int (escrow_balance u) + amt)\<rparr>)
      else Inl Numeric_field_overflow)"
  by (simp add: DECIMAL_12_2_def)

text \<open>The call once the guard is passed and \<^verbatim>\<open>generate_vtid\<close> has returned.\<close>

lemma create_unfold:
  assumes "\<not> (case map_option balance (select_user s d) of None \<Rightarrow> False | Some b \<Rightarrow> of_int b < amt)"
    and "generate_vtid rnd d = Some v"
  shows "create_transaction_with_escrow rnd new_id now s r amt conds hrs d =
     Some
       (if list_all (\<lambda>u. user_id u = s \<longrightarrow>
              fits_DECIMAL_12_2 (of_int (balance u) - amt)
              \<and> fits_DECIMAL_12_2 (of_int (escrow_balance u) + amt)) (users d)
        then and_then
               (insert_transaction new_id now v s r amt ''pending'' conds hrs
                  (update_users (\<lambda>u. user_id u = s)
                     (\<lambda>u. u\<lparr>balance := numeric_round (of_int (balance u) - amt),
                            escrow_balance := numeric_round (of_int (escrow_balance u) + amt)\<rparr>) d))
               (\<lambda>(t, d2). Inr (t, update_users (\<lambda>u. user_id u = r) (append_unread (tx_id t)) d2))
        else Inl Numeric_field_overflow)"
proof -
  have "update_users_checked (\<lambda>u. user_id u = s)
          (\<lambda>u. and_then (DECIMAL_12_2 (of_int (balance u) - amt)) (\<lambda>b.
                and_then (DECIMAL_12_2 (of_int (escrow_balance u) + amt)) (\<lambda>e.
                Inr (u\<lparr>balance := b, escrow_balance := e\<rparr>)))) d
      = (if list_all (\<lambda>u. user_id u = s \<longrightarrow>
              fits_DECIMAL_12_2 (of_int (balance u) - amt)
              \<and> fits_DECIMAL_12_2 (of_int (escrow_balance u) + amt)) (users d)
         then Inr (update_users (\<lambda>u. user_id u = s)
                     (\<lambda>u. u\<lparr>balance := numeric_round (of_int (balance u) - amt),
                            escrow_balance := numeric_round (of_int (escrow_balance u) + amt)\<rparr>) d)
         else Inl Numeric_field_overflow)"
    by (rule update_users_checked_eq) (rule debit_eq)
  with assms show ?thesis
    by (simp add: create_transaction_with_escrow_def Let_def)
qed

lemma insert_transaction_Inr:
  assumes "insert_transaction new_id now v s r amt st conds hrs d = Inr (t, d2)"
  shows "t = \<lparr>tx_id = new_id, vtid = v, sender_id = s, receiver_id = r,
               amount = numeric_round amt, status = st, conditions = conds, time_limit = hrs,
               created_at = now, accepted_at = None, completed_at = None, cancelled_at = None\<rparr>
       \<and> d2 = d\<lparr>transactions := transactions d @ [t]\<rparr>
       \<and> fits_DECIMAL_12_2 amt \<and> s \<noteq> r \<and> 0 < numeric_round amt
       \<and> \<not> list_ex (\<lambda>x. tx_id x = new_id) (transactions d)
       \<and> \<not> list_ex (\<lambda>x. vtid x = v) (transactions d)
       \<and> select_user s d \<noteq> None \<and> select_user r d \<noteq> None"
  using assms
  by (auto simp: insert_transaction_def DECIMAL_12_2_def Let_def split: if_splits)

lemma insert_transaction_succeeds:
  assumes "fits_DECIMAL_12_2 amt" "s \<noteq> r" "0 < numeric_round amt"
    and "\<not> list_ex (\<lambda>x. tx_id x = new_id) (transactions d)"
    and "\<not> list_ex (\<lambda>x. vtid x = v) (transactions d)"
    and "select_user s d \<noteq> None" "select_user r d \<noteq> None"
  shows "insert_transaction new_id now v s r amt ''pending'' conds hrs d =
     Inr (\<lparr>tx_id = new_id, vtid = v, sender_id = s, receiver_id = r,
            amount = numeric_round amt, status = ''pending'', conditions = conds,
            time_limit = hrs, created_at = now, accepted_at = None, completed_at = None,
            cancelled_at = None\<rparr>,
          d\<lparr>transactions := transactions d @
            [\<lparr>tx_id = new_id, vtid = v, sender_id = s, receiver_id = r,
              amount = numeric_round amt, status = ''pending'', conditions = conds,
              time_limit = hrs, created_at = now, accepted_at = None, completed_at = None,
              cancelled_at = None\<rparr>]\<rparr>)"
  using assms by (simp add: insert_transaction_def DECIMAL_12_2_def Let_def)

lemma create_result:
  assumes "create_transaction_with_escrow rnd new_id now s r amt conds hrs d = Some (Inr (t, d'))"
  shows "users d' = map (\<lambda>u. if user_id u = s
                   then u\<lparr>balance := numeric_round (of_int (balance u) - amt),
                          escrow_balance := numeric_round (of_int (escrow_balance u) + amt)\<rparr>
                   else if user_id u = r
                   then u\<lparr>unread_transactions := unread_transactions u @ [tx_id t]\<rparr>
                   else u) (users d)
       \<and> transactions d' = transactions d @ [t]
       \<and> tx_id t = new_id \<and> sender_id t = s \<and> receiver_id t = r
       \<and> amount t = numeric_round amt
       \<and> status t = ''pending'' \<and> conditions t = conds \<and> time_limit t = hrs
       \<and> created_at t = now \<and> accepted_at t = None \<and> completed_at t = None
       \<and> cancelled_at t = None
       \<and> generate_vtid rnd d = Some (vtid t)
       \<and> \<not> list_ex (\<lambda>x. vtid x = vtid t) (transactions d)
       \<and> \<not> list_ex (\<lambda>x. tx_id x = tx_id t) (transactions d)
       \<and> s \<noteq> r \<and> 0 < numeric_round amt
       \<and> (\<exists>u. select_user s d = Some u \<and> amt \<le> of_int (balance u))
       \<and> (\<exists>w. select_user r d = Some w)"
proof -
  have guard: "\<not> (case map_option balance (select_user s d) of None \<Rightarrow> False | Some b \<Rightarrow> of_int b < amt)"
    using assms by (auto simp: create_transaction_with_escrow_def Let_def split: if_splits)
  from assms guard obtain v where v: "generate_vtid rnd d = Some v"
    by (auto simp: create_transaction_with_escrow_def Let_def split: option.splits)
  define d1 where "d1 = update_users (\<lambda>u. user_id u = s)
      (\<lambda>u. u\<lparr>balance := numeric_round (of_int (balance u) - amt),
             escrow_balance := numeric_round (of_int (escrow_balance u) + amt)\<rparr>) d"
  from assms obtain t0 d2 where ins: "insert_transaction new_id now v s r amt ''pending'' conds hrs d1 = Inr (t0, d2)"
    and td: "t = t0" "d' = update_users (\<lambda>u. user_id u = r) (append_unread (tx_id t0)) d2"
    unfolding create_unfold [OF guard v] d1_def [symmetric]
    by (auto simp: and_then_def split: if_splits sum.splits)
  from insert_transaction_Inr [OF ins] have
    t0: "t0 = \<lparr>tx_id = new_id, vtid = v, sender_id = s, receiver_id = r,
               amount = numeric_round amt, status = ''pending'', conditions = conds,
               time_limit = hrs, created_at = now, accepted_at = None, completed_at = None,
               cancelled_at = None\<rparr>"
    and d2: "d2 = d1\<lparr>transactions := transactions d1 @ [t0]\<rparr>"
    and ne: "s \<noteq> r" and pos: "0 < numeric_round amt"
    and fresh: "\<not> list_ex (\<lambda>x. tx_id x = new_id) (transactions d1)"
    and fk: "select_user s d1 \<noteq> None" "select_user r d1 \<noteq> None"
    by simp_all
  from fk have "select_user s d \<noteq> None" and R: "select_user r d \<noteq> None"
    by (simp_all add: d1_def select_user_update_users)
  then obtain u where u: "select_user s d = Some u" by blast
  with guard have "amt \<le> of_int (balance u)" by simp
  with u have S: "\<exists>u. select_user s d = Some u \<and> amt \<le> of_int (balance u)" by blast
  have U: "users d' = map (\<lambda>u. if user_id u = s
                   then u\<lparr>balance := numeric_round (of_int (balance u) - amt),
                          escrow_balance := numeric_round (of_int (escrow_balance u) + amt)\<rparr>
                   else if user_id u = r
                   then u\<lparr>unread_transactions := unread_transactions u @ [new_id]\<rparr>
                   else u) (users d)"
    using ne by (simp add: td d2 d1_def update_users_def t0 append_unread_def)
  have T: "transactions d' = transactions d @ [t]"
    by (simp add: td d2 d1_def)
  have F: "\<not> list_ex (\<lambda>x. tx_id x = new_id) (transactions d)"
    using fresh by (simp add: d1_def)
  show ?thesis
    using U T v F generate_vtid_fresh [OF v] ne pos S R by (simp add: td t0)
qed

lemma create_succeeds:
  assumes "select_user s d = Some u" "amt \<le> of_int (balance u)" "select_user r d = Some w"
    and "s \<noteq> r" "0 < numeric_round amt" "fits_DECIMAL_12_2 amt"
    and "list_all (\<lambda>x. user_id x = s \<longrightarrow>
              fits_DECIMAL_12_2 (of_int (balance x) - amt)
              \<and> fits_DECIMAL_12_2 (of_int (escrow_balance x) + amt)) (users d)"
    and "\<not> list_ex (\<lambda>x. tx_id x = new_id) (transactions d)"
    and "generate_vtid rnd d = Some v"
  shows "create_transaction_with_escrow rnd new_id now s r amt conds hrs d =
     Some (Inr
       (\<lparr>tx_id = new_id, vtid = v, sender_id = s, receiver_id = r,
         amount = numeric_round amt, status = ''pending'', conditions = conds,
         time_limit = hrs, created_at = now, accepted_at = None, completed_at = None,
         cancelled_at = None\<rparr>,
        \<lparr>users = map (\<lambda>u. if user_id u = s
                   then u\<lparr>balance := numeric_round (of_int (balance u) - amt),
                          escrow_balance := numeric_round (of_int (escrow_balance u) + amt)\<rparr>
                   else if user_id u = r
                   then u\<lparr>unread_transactions := unread_transactions u @ [new_id]\<rparr>
                   else u) (users d),
         transactions = transactions d @
           [\<lparr>tx_id = new_id, vtid = v, sender_id = s, receiver_id = r,
             amount = numeric_round amt, status = ''pending'', conditions = conds,
             time_limit = hrs, created_at = now, accepted_at = None, completed_at = None,
             cancelled_at = None\<rparr>]\<rparr>))"
proof -
  define d1 where "d1 = update_users (\<lambda>u. user_id u = s)
      (\<lambda>u. u\<lparr>balance := numeric_round (of_int (balance u) - amt),
             escrow_balance := numeric_round (of_int (escrow_balance u) + amt)\<rparr>) d"
  have guard: "\<not> (case map_option balance (select_user s d) of None \<Rightarrow> False | Some b \<Rightarrow> of_int b < amt)"
    using assms(1,2) by simp
  have s1: "select_user s d1 \<noteq> None" and r1: "select_user r d1 \<noteq> None"
    using assms(1,3) by (simp_all add: d1_def select_user_update_users)
  have f1: "\<not> list_ex (\<lambda>x. tx_id x = new_id) (transactions d1)"
    and f2: "\<not> list_ex (\<lambda>x. vtid x = v) (transactions d1)"
    using assms(8) generate_vtid_fresh [OF assms(9)] by (simp_all add: d1_def)
  have users1: "users d1 = map (\<lambda>u. if user_id u = s
                   then u\<lparr>balance := numeric_round (of_int (balance u) - amt),
                          escrow_balance := numeric_round (of_int (escrow_balance u) + amt)\<rparr>
                   else u) (users d)"
    and tx1: "transactions d1 = transactions d"
    by (simp_all add: d1_def update_users_def)
  show ?thesis
    unfolding create_unfold [OF guard assms(9)] d1_def [symmetric]
      insert_transaction_succeeds [OF assms(6) assms(4) assms(5) f1 f2 s1 r1]
    using assms(7) assms(4)
    by (simp add: update_users_def users1 tx1 append_unread_def)
qed




text \<open>
  Claim C7. When the sender exists and has less than the amount, the call fails with
  \<^verbatim>\<open>Insufficient balance\<close>: the guard comes before the first write, and the
  database after the call is the database before it.
\<close>

theorem create_insufficient_funds:
  assumes "select_user s d = Some u" and "of_int (balance u) < amt"
  shows "create_transaction_with_escrow rnd new_id now s r amt conds hrs d
           = Some (Inl Insufficient_balance)
       \<and> map_option (committed_create d)
           (create_transaction_with_escrow rnd new_id now s r amt conds hrs d) = Some d"
  using assms by (simp add: create_transaction_with_escrow_def committed_create_def)

theorem create_insufficient_funds_witness:
  "select_user 1 two_users = Some alice \<and> of_int (balance alice) < (100001 :: rat)
   \<and> create_transaction_with_escrow digests 10 0 1 2 100001 [] 1 two_users
       = Some (Inl Insufficient_balance)
   \<and> map_option (committed_create two_users)
       (create_transaction_with_escrow digests 10 0 1 2 100001 [] 1 two_users) = Some two_users"
proof -
  have h1: "select_user 1 two_users = Some alice" by code_simp
  have h2: "of_int (balance alice) < (100001 :: rat)" by code_simp
  from create_insufficient_funds [OF h1 h2, of digests 10 0 2 "[]" 1] h1 h2
  show ?thesis by (simp add: committed_create_def)
qed

text \<open>
  Claim C8, as the code has it. \<^verbatim>\<open>create_transaction_with_escrow\<close> does not look at
  its conditions: a call with no condition that meets the other requirements succeeds,
  inserts a pending transaction with no condition and moves the amount into escrow. The
  other requirements are a known sender with at least the amount, a known receiver
  other than the sender, an amount that rounds to a positive number of cents and fits
  the column, a sender's balance and escrow balance that fit their columns after the
  move, a new id, and a \<^verbatim>\<open>generate_vtid\<close> that returns. It is the client's
  \<^verbatim>\<open>validateTransaction\<close> that is false for an empty list of conditions, whatever the
  time limit.
\<close>

theorem create_empty_conditions:
  assumes "select_user s d = Some u" "amt \<le> of_int (balance u)" "select_user r d = Some w"
    and "s \<noteq> r" "0 < numeric_round amt" "fits_DECIMAL_12_2 amt"
    and "list_all (\<lambda>x. user_id x = s \<longrightarrow>
              fits_DECIMAL_12_2 (of_int (balance x) - amt)
              \<and> fits_DECIMAL_12_2 (of_int (escrow_balance x) + amt)) (users d)"
    and "\<not> list_ex (\<lambda>x. tx_id x = new_id) (transactions d)"
    and "generate_vtid rnd d = Some v"
  shows "\<not> validateTransaction [] timeLimitNum
     \<and> create_transaction_with_escrow rnd new_id now s r amt [] hrs d =
     Some (Inr
       (\<lparr>tx_id = new_id, vtid = v, sender_id = s, receiver_id = r,
         amount = numeric_round amt, status = ''pending'', conditions = [],
         time_limit = hrs, created_at = now, accepted_at = None, completed_at = None,
         cancelled_at = None\<rparr>,
        \<lparr>users = map (\<lambda>u. if user_id u = s
                   then u\<lparr>balance := numeric_round (of_int (balance u) - amt),
                          escrow_balance := numeric_round (of_int (escrow_balance u) + amt)\<rparr>
                   else if user_id u = r
                   then u\<lparr>unread_transactions := unread_transactions u @ [new_id]\<rparr>
                   else u) (users d),
         transactions = transactions d @
           [\<lparr>tx_id = new_id, vtid = v, sender_id = s, receiver_id = r,
             amount = numeric_round amt, status = ''pending'', conditions = [],
             time_limit = hrs, created_at = now, accepted_at = None, completed_at = None,
             cancelled_at = None\<rparr>]\<rparr>))"
  using create_succeeds [OF assms, of now "[]" hrs]
  by (simp add: validateTransaction_def MIN_CONDITIONS_def)

theorem create_empty_conditions_witness:
  "select_user 1 two_users = Some alice \<and> (50000 :: rat) \<le> of_int (balance alice)
   \<and> select_user 2 two_users = Some bob
   \<and> 0 < numeric_round 50000 \<and> fits_DECIMAL_12_2 50000
   \<and> list_all (\<lambda>x. user_id x = 1 \<longrightarrow>
              fits_DECIMAL_12_2 (of_int (balance x) - 50000)
              \<and> fits_DECIMAL_12_2 (of_int (escrow_balance x) + 50000)) (users two_users)
   \<and> \<not> list_ex (\<lambda>x. tx_id x = 10) (transactions two_users)
   \<and> generate_vtid digests two_users = Some ''000000000000''
   \<and> \<not> validateTransaction [] (Some 12)
   \<and> map_option (map_sum id (\<lambda>(t, d). (conditions t, status t, amount t, ledger d)))
       (create_transaction_with_escrow digests 10 0 1 2 50000 [] 1 two_users)
     = Some (Inr ([], ''pending'', 50000, [(1, 50000, 50000), (2, 100000, 0)]))"
proof -
  have h1: "select_user 1 two_users = Some alice" by code_simp
  have h2: "(50000 :: rat) \<le> of_int (balance alice)" by code_simp
  have h3: "select_user 2 two_users = Some bob" by code_simp
  have h4: "(1::nat) \<noteq> 2" by simp
  have h5: "0 < numeric_round 50000" by code_simp
  have h6: "fits_DECIMAL_12_2 50000" by code_simp
  have h7: "list_all (\<lambda>x. user_id x = 1 \<longrightarrow>
              fits_DECIMAL_12_2 (of_int (balance x) - 50000)
              \<and> fits_DECIMAL_12_2 (of_int (escrow_balance x) + 50000)) (users two_users)"
    by code_simp
  have h8: "\<not> list_ex (\<lambda>x. tx_id x = 10) (transactions two_users)" by code_simp
  have h9: "generate_vtid digests two_users = Some ''000000000000''" by code_simp
  have l: "ledger \<lparr>users = map (\<lambda>u. if user_id u = 1
                   then u\<lparr>balance := numeric_round (of_int (balance u) - 50000),
                          escrow_balance := numeric_round (of_int (escrow_balance u) + 50000)\<rparr>
                   else if user_id u = 2
                   then u\<lparr>unread_transactions := unread_transactions u @ [10]\<rparr>
                   else u) (users two_users),
         transactions = transactions two_users @
           [\<lparr>tx_id = 10, vtid = ''000000000000'', sender_id = 1, receiver_id = 2,
             amount = numeric_round 50000, status = ''pending'', conditions = [],
             time_limit = 1, created_at = 0, accepted_at = None, completed_at = None,
             cancelled_at = None\<rparr>]\<rparr>
      = [(1, 50000, 50000), (2, 100000, 0)]"
    by code_simp
  have a: "numeric_round 50000 = 50000" by code_simp
  from create_empty_conditions [OF h1 h2 h3 h4 h5 h6 h7 h8 h9, of "Some 12" 0 1]
    h1 h2 h3 h5 h6 h7 h8 h9 l a
  show ?thesis by simp
qed

text \<open>
  Claim C8 as the specification states it fails: Alice, with 1000.00, sends 500.00 to Bob
  under no condition, and the call succeeds.
\<close>

theorem create_empty_conditions_counterexample:
  "create_transaction_with_escrow digests 10 0 1 2 50000 [] 1 two_users
     = Some (Inr ((sale ''pending'' False)\<lparr>conditions := []\<rparr>,
         \<lparr>users = [alice\<lparr>balance := 50000, escrow_balance := 50000\<rparr>,
                   bob\<lparr>unread_transactions := [10]\<rparr>],
          transactions = [(sale ''pending'' False)\<lparr>conditions := []\<rparr>]\<rparr>))"
  by code_simp

text \<open>
  Claim C10, as the code has it. When no user row has the sender's id, the balance read
  is \<^verbatim>\<open>NULL\<close> and the guard does not fire: the call is never rejected with
  \<^verbatim>\<open>Insufficient balance\<close>, whatever the amount. It goes on to \<^verbatim>\<open>generate_vtid\<close>,
  and when that returns the call fails at the \<^verbatim>\<open>INSERT\<close>, on the first of these
  that applies: a numeric field overflow when the amount, rounded to the cent, does not
  fit \<^verbatim>\<open>DECIMAL(12, 2)\<close>; the check \<^verbatim>\<open>different_users\<close> when the receiver is the
  sender; the check \<^verbatim>\<open>amount > 0\<close> when the rounded amount is not positive; the
  primary key when the new id is taken; and the foreign key of \<^verbatim>\<open>sender_id\<close>
  otherwise.
\<close>

theorem create_unknown_sender:
  assumes "select_user s d = None"
  shows "create_transaction_with_escrow rnd new_id now s r amt conds hrs d
           \<noteq> Some (Inl Insufficient_balance)
       \<and> create_transaction_with_escrow rnd new_id now s r amt conds hrs d =
          (case generate_vtid rnd d of
             None \<Rightarrow> None
           | Some v \<Rightarrow>
               Some (Inl
                 (if \<not> fits_DECIMAL_12_2 amt then Numeric_field_overflow
                  else if s = r then Check_violation ''different_users''
                  else if \<not> 0 < numeric_round amt
                    then Check_violation ''transactions_amount_check''
                  else if list_ex (\<lambda>x. tx_id x = new_id) (transactions d)
                    then Unique_violation ''transactions_pkey''
                  else Foreign_key_violation ''transactions_sender_id_fkey'')))"
proof -
  have guard: "\<not> (case map_option balance (select_user s d) of None \<Rightarrow> False | Some b \<Rightarrow> of_int b < amt)"
    using assms by simp
  have d1: "update_users (\<lambda>u. user_id u = s) f d = d" for f
    using assms by (rule update_users_absent)
  have all: "list_all (\<lambda>u. user_id u = s \<longrightarrow> P u) (users d)" for P
    using assms by (auto simp: select_user_None list_all_iff list_ex_iff)
  have eq: "create_transaction_with_escrow rnd new_id now s r amt conds hrs d =
          (case generate_vtid rnd d of
             None \<Rightarrow> None
           | Some v \<Rightarrow>
               Some (Inl
                 (if \<not> fits_DECIMAL_12_2 amt then Numeric_field_overflow
                  else if s = r then Check_violation ''different_users''
                  else if \<not> 0 < numeric_round amt
                    then Check_violation ''transactions_amount_check''
                  else if list_ex (\<lambda>x. tx_id x = new_id) (transactions d)
                    then Unique_violation ''transactions_pkey''
                  else Foreign_key_violation ''transactions_sender_id_fkey'')))"
  proof (cases "generate_vtid rnd d")
    case None
    then show ?thesis using assms by (simp add: create_transaction_with_escrow_def)
  next
    case (Some v)
    show ?thesis
      unfolding create_unfold [OF guard Some] Some
      using assms generate_vtid_fresh [OF Some] all
      by (simp add: d1 insert_transaction_def DECIMAL_12_2_def Let_def)
  qed
  show ?thesis
    unfolding eq by (simp split: option.splits)
qed

theorem create_unknown_sender_witness:
  "select_user 99 two_users = None
   \<and> create_transaction_with_escrow digests 10 0 99 2 50000 [] 1 two_users
       = Some (Inl (Foreign_key_violation ''transactions_sender_id_fkey''))"
proof -
  have h: "select_user 99 two_users = None" by code_simp
  have v: "generate_vtid digests two_users = Some ''000000000000''" by code_simp
  have t: "transactions two_users = []" by code_simp
  have f: "fits_DECIMAL_12_2 50000" "0 < numeric_round 50000" by code_simp+
  from create_unknown_sender [OF h, of digests 10 0 2 50000 "[]" 1] h
  show ?thesis by (simp add: v t f)
qed

text \<open>
  Claim C10 as stated names the foreign key for every amount; with an amount of zero the
  call fails on the \<^verbatim>\<open>CHECK (amount > 0)\<close> of the table instead.
\<close>

theorem create_unknown_sender_counterexample:
  "select_user 99 two_users = None
   \<and> create_transaction_with_escrow digests 10 0 99 2 0 [] 1 two_users
       = Some (Inl (Check_violation ''transactions_amount_check''))"
  by code_simp

section \<open>Status changes\<close>

lemma list_all_ledger:
  "list_all (\<lambda>u. Q (user_id u) (balance u) (escrow_balance u)) (users d)
     = list_all (\<lambda>(i, b, e). Q i b e) (ledger d)"
  by (simp add: ledger_def list_all_iff)

lemma ledger_append_unread:
  "ledger (update_users sel (append_unread x) d) = ledger d"
  by (simp add: ledger_def update_users_def append_unread_def comp_def)

lemma ledger_transactions_update [simp]: "ledger (d\<lparr>transactions := ts\<rparr>) = ledger d"
  by (simp add: ledger_def)

lemma ledger_notify: "ledger (notify_transaction_update old new d) = ledger d"
  by (simp add: notify_transaction_update_def ledger_append_unread)

lemma transactions_notify: "transactions (notify_transaction_update old new d) = transactions d"
  by (simp add: notify_transaction_update_def)

lemma fold_notify:
  "transactions (fold (\<lambda>t. notify_transaction_update t (f t)) rows d) = transactions d
   \<and> ledger (fold (\<lambda>t. notify_transaction_update t (f t)) rows d) = ledger d"
  by (induction rows arbitrary: d) (simp_all add: ledger_notify transactions_notify)

lemma transactions_update_transactions:
  "transactions (update_transactions p f d) = map (\<lambda>t. if tx_id t = p then f t else t) (transactions d)"
  by (simp add: update_transactions_def fold_notify)

lemma ledger_update_transactions: "ledger (update_transactions p f d) = ledger d"
  by (simp add: update_transactions_def fold_notify)

lemma ledger_refund:
  "ledger (update_users (\<lambda>u. user_id u = s)
      (\<lambda>u. u\<lparr>balance := balance u + a, escrow_balance := escrow_balance u - a\<rparr>) d)
   = map (\<lambda>(i, b, e). if i = s then (i, b + a, e - a) else (i, b, e)) (ledger d)"
  by (simp add: ledger_def update_users_def comp_def if_distrib cong: if_cong)

lemma ledger_release:
  "ledger (update_users (\<lambda>u. user_id u = s)
      (\<lambda>u. u\<lparr>escrow_balance := escrow_balance u - a\<rparr>) d)
   = map (\<lambda>(i, b, e). if i = s then (i, b, e - a) else (i, b, e)) (ledger d)"
  by (simp add: ledger_def update_users_def comp_def if_distrib cong: if_cong)

lemma ledger_credit:
  "ledger (update_users (\<lambda>u. user_id u = r)
      (\<lambda>u. u\<lparr>balance := balance u + a\<rparr>) d)
   = map (\<lambda>(i, b, e). if i = r then (i, b + a, e) else (i, b, e)) (ledger d)"
  by (simp add: ledger_def update_users_def comp_def if_distrib cong: if_cong)

text \<open>The three checked updates of the procedure, each as a test and an update that cannot raise.\<close>

lemma refund_checked:
  "update_users_checked (\<lambda>u. user_id u = s)
     (\<lambda>u. and_then (DECIMAL_12_2 (of_int (balance u + a))) (\<lambda>b.
           and_then (DECIMAL_12_2 (of_int (escrow_balance u - a))) (\<lambda>e.
           Inr (u\<lparr>balance := b, escrow_balance := e\<rparr>)))) d
   = (if list_all (\<lambda>(i, b, e). i = s \<longrightarrow>
            fits_DECIMAL_12_2 (of_int (b + a)) \<and> fits_DECIMAL_12_2 (of_int (e - a))) (ledger d)
      then Inr (update_users (\<lambda>u. user_id u = s)
             (\<lambda>u. u\<lparr>balance := balance u + a, escrow_balance := escrow_balance u - a\<rparr>) d)
      else Inl Numeric_field_overflow)"
  unfolding list_all_ledger [symmetric]
  by (rule update_users_checked_eq) (simp add: DECIMAL_12_2_def del: of_int_add of_int_diff)

lemma release_checked:
  "update_users_checked (\<lambda>u. user_id u = s)
     (\<lambda>u. and_then (DECIMAL_12_2 (of_int (escrow_balance u - a))) (\<lambda>e.
           Inr (u\<lparr>escrow_balance := e\<rparr>))) d
   = (if list_all (\<lambda>(i, b, e). i = s \<longrightarrow> fits_DECIMAL_12_2 (of_int (e - a))) (ledger d)
      then Inr (update_users (\<lambda>u. user_id u = s)
             (\<lambda>u. u\<lparr>escrow_balance := escrow_balance u - a\<rparr>) d)
      else Inl Numeric_field_overflow)"
  unfolding list_all_ledger [symmetric]
  by (rule update_users_checked_eq) (simp add: DECIMAL_12_2_def del: of_int_add of_int_diff)

lemma credit_checked:
  "update_users_checked (\<lambda>u. user_id u = r)
     (\<lambda>u. and_then (DECIMAL_12_2 (of_int (balance u + a))) (\<lambda>b.
           Inr (u\<lparr>balance := b\<rparr>))) d
   = (if list_all (\<lambda>(i, b, e). i = r \<longrightarrow> fits_DECIMAL_12_2 (of_int (b + a))) (ledger d)
      then Inr (update_users (\<lambda>u. user_id u = r) (\<lambda>u. u\<lparr>balance := balance u + a\<rparr>) d)
      else Inl Numeric_field_overflow)"
  unfolding list_all_ledger [symmetric]
  by (rule update_users_checked_eq) (simp add: DECIMAL_12_2_def del: of_int_add of_int_diff)

lemma update_same_status:
  "select_transaction p d = Some rec \<Longrightarrow> status rec = st \<Longrightarrow>
   update_transaction_status now p st d = Inr d"
  by (simp add: update_transaction_status_def)

lemma update_not_found:
  "select_transaction p d = None \<Longrightarrow> update_transaction_status now p st d = Inl Transaction_not_found"
  by (simp add: update_transaction_status_def)

lemma update_accept:
  assumes "select_transaction p d = Some rec" "status rec \<noteq> ''accepted''"
  shows "\<exists>d'. update_transaction_status now p ''accepted'' d = Inr d'
     \<and> transactions d' = map (\<lambda>t. if tx_id t = p
            then t\<lparr>status := ''accepted'', accepted_at := Some now\<rparr> else t) (transactions d)
     \<and> ledger d' = ledger d"
  using assms
  by (simp add: update_transaction_status_def transactions_update_transactions
      ledger_append_unread ledger_update_transactions)

lemma update_cancel:
  assumes "select_transaction p d = Some rec" "status rec \<noteq> ''cancelled''"
  shows "(if list_all (\<lambda>(i, b, e). i = sender_id rec \<longrightarrow>
              fits_DECIMAL_12_2 (of_int (b + amount rec))
              \<and> fits_DECIMAL_12_2 (of_int (e - amount rec))) (ledger d)
          then \<exists>d'. update_transaction_status now p ''cancelled'' d = Inr d'
             \<and> transactions d' = map (\<lambda>t. if tx_id t = p
                    then t\<lparr>status := ''cancelled'', cancelled_at := Some now\<rparr> else t)
                      (transactions d)
             \<and> ledger d' = map (\<lambda>(i, b, e). if i = sender_id rec
                                   then (i, b + amount rec, e - amount rec)
                                   else (i, b, e)) (ledger d)
          else update_transaction_status now p ''cancelled'' d = Inl Numeric_field_overflow)"
  using assms
  by (simp add: update_transaction_status_def refund_checked transactions_update_transactions
      ledger_append_unread ledger_update_transactions ledger_refund
      del: of_int_add of_int_diff)

lemma update_complete:
  assumes "select_transaction p d = Some rec" "status rec = ''accepted''"
  shows "(if list_all (\<lambda>(i, b, e).
                (i = sender_id rec \<longrightarrow> fits_DECIMAL_12_2 (of_int (e - amount rec)))
                \<and> (i = receiver_id rec \<longrightarrow> fits_DECIMAL_12_2 (of_int (b + amount rec))))
              (ledger d)
          then \<exists>d'. update_transaction_status now p ''completed'' d = Inr d'
             \<and> transactions d' = map (\<lambda>t. if tx_id t = p
                    then t\<lparr>status := ''completed'', completed_at := Some now\<rparr> else t)
                      (transactions d)
             \<and> ledger d' = map (\<lambda>(i, b, e).
                    (i, if i = receiver_id rec then b + amount rec else b,
                        if i = sender_id rec then e - amount rec else e)) (ledger d)
          else update_transaction_status now p ''completed'' d = Inl Numeric_field_overflow)"
proof -
  let ?d1 = "update_transactions p (\<lambda>t. t\<lparr>status := ''completed'', completed_at := Some now\<rparr>) d"
  let ?d2 = "update_users (\<lambda>u. user_id u = sender_id rec)
               (\<lambda>u. u\<lparr>escrow_balance := escrow_balance u - amount rec\<rparr>) ?d1"
  have l2: "ledger ?d2 = map (\<lambda>(i, b, e). if i = sender_id rec then (i, b, e - amount rec)
                                           else (i, b, e)) (ledger d)"
    by (simp add: ledger_release ledger_update_transactions)
  have c2: "list_all (\<lambda>(i, b, e). i = receiver_id rec \<longrightarrow>
                fits_DECIMAL_12_2 (of_int (b + amount rec))) (ledger ?d2)
          = list_all (\<lambda>(i, b, e). i = receiver_id rec \<longrightarrow>
                fits_DECIMAL_12_2 (of_int (b + amount rec))) (ledger d)"
    unfolding l2 list.pred_map
    by (rule arg_cong2 [where f = list_all]) (auto simp: fun_eq_iff)
  have both: "list_all (\<lambda>(i, b, e).
                (i = sender_id rec \<longrightarrow> fits_DECIMAL_12_2 (of_int (e - amount rec)))
                \<and> (i = receiver_id rec \<longrightarrow> fits_DECIMAL_12_2 (of_int (b + amount rec))))
              (ledger d)
     \<longleftrightarrow> list_all (\<lambda>(i, b, e). i = sender_id rec \<longrightarrow>
                fits_DECIMAL_12_2 (of_int (e - amount rec))) (ledger d)
         \<and> list_all (\<lambda>(i, b, e). i = receiver_id rec \<longrightarrow>
                fits_DECIMAL_12_2 (of_int (b + amount rec))) (ledger d)"
    by (auto simp: list_all_iff)
  have l3: "ledger (update_users (\<lambda>u. user_id u = receiver_id rec) (append_unread p)
              (update_users (\<lambda>u. user_id u = receiver_id rec)
                 (\<lambda>u. u\<lparr>balance := balance u + amount rec\<rparr>) ?d2))
      = map (\<lambda>(i, b, e).
                    (i, if i = receiver_id rec then b + amount rec else b,
                        if i = sender_id rec then e - amount rec else e)) (ledger d)"
    by (simp add: ledger_append_unread ledger_credit l2 comp_def case_prod_beta)
  show ?thesis
    unfolding both using assms l3
    by (simp add: update_transaction_status_def release_checked credit_checked c2
        ledger_update_transactions transactions_update_transactions
        del: of_int_add of_int_diff)
qed

lemma update_complete_refused:
  assumes "select_transaction p d = Some rec" "status rec \<noteq> ''accepted''" "status rec \<noteq> ''completed''"
  shows "update_transaction_status now p ''completed'' d = Inl Must_be_accepted"
  using assms by (simp add: update_transaction_status_def)

lemma update_invalid_status:
  assumes "select_transaction p d = Some rec" "status rec \<noteq> st"
    "st \<noteq> ''accepted''" "st \<noteq> ''completed''" "st \<noteq> ''cancelled''"
  shows "update_transaction_status now p st d = Inl (Invalid_status st)"
  using assms by (simp add: update_transaction_status_def)

text \<open>
  Claim C2, as the code has it. \<^verbatim>\<open>update_transaction_status(id, 'accepted')\<close> on a
  pending transaction succeeds, whether or not its deadline has passed (the procedure
  reads no deadline): the status becomes \<^verbatim>\<open>accepted\<close>, \<^verbatim>\<open>accepted_at\<close> becomes the
  time of the call, and no balance and no escrow balance changes. On a transaction that
  is accepted already the call returns without an error and without any change. On an
  id that no transaction has it fails with \<^verbatim>\<open>Transaction not found\<close>.
\<close>

theorem accept_transaction:
  "(select_transaction p d = Some rec \<and> status rec = ''pending'' \<longrightarrow>
      (\<exists>d'. update_transaction_status now p ''accepted'' d = Inr d'
         \<and> transactions d' = map (\<lambda>t. if tx_id t = p
                then t\<lparr>status := ''accepted'', accepted_at := Some now\<rparr> else t) (transactions d)
         \<and> ledger d' = ledger d))
   \<and> (select_transaction p d = Some rec \<and> status rec = ''accepted'' \<longrightarrow>
        update_transaction_status now p ''accepted'' d = Inr d)
   \<and> (select_transaction p d = None \<longrightarrow>
        update_transaction_status now p ''accepted'' d = Inl Transaction_not_found)"
proof (intro conjI impI)
  assume "select_transaction p d = Some rec \<and> status rec = ''pending''"
  then have "select_transaction p d = Some rec" and "status rec \<noteq> ''accepted''" by simp_all
  then show "\<exists>d'. update_transaction_status now p ''accepted'' d = Inr d'
         \<and> transactions d' = map (\<lambda>t. if tx_id t = p
                then t\<lparr>status := ''accepted'', accepted_at := Some now\<rparr> else t) (transactions d)
         \<and> ledger d' = ledger d"
    by (rule update_accept)
next
  assume "select_transaction p d = Some rec \<and> status rec = ''accepted''"
  then show "update_transaction_status now p ''accepted'' d = Inr d"
    by (simp add: update_same_status)
next
  assume "select_transaction p d = None"
  then show "update_transaction_status now p ''accepted'' d = Inl Transaction_not_found"
    by (rule update_not_found)
qed

theorem accept_transaction_witness:
  "select_transaction 10 (after_sale ''pending'' False) = Some (sale ''pending'' False)
   \<and> status (sale ''pending'' False) = ''pending''
   \<and> created_at (sale ''pending'' False) + time_limit (sale ''pending'' False) * hour < 7200000000
   \<and> (\<exists>d'. update_transaction_status 7200000000 10 ''accepted'' (after_sale ''pending'' False) = Inr d'
         \<and> transactions d' = map (\<lambda>t. if tx_id t = 10
                then t\<lparr>status := ''accepted'', accepted_at := Some 7200000000\<rparr> else t)
                  (transactions (after_sale ''pending'' False))
         \<and> ledger d' = ledger (after_sale ''pending'' False))"
proof -
  have h1: "select_transaction 10 (after_sale ''pending'' False) = Some (sale ''pending'' False)"
    by code_simp
  have h2: "status (sale ''pending'' False) = ''pending''" by code_simp
  have h3: "created_at (sale ''pending'' False) + time_limit (sale ''pending'' False) * hour < 7200000000"
    by code_simp
  from accept_transaction [of 10 "after_sale ''pending'' False" "sale ''pending'' False" 7200000000]
    h1 h2 h3
  show ?thesis by blast
qed

text \<open>
  Claim C2 as stated fails twice: accepting an accepted transaction is no error, and a
  pending transaction whose hour has long passed is accepted.
\<close>

theorem accept_transaction_counterexample:
  "update_transaction_status 7200000000 10 ''accepted'' (after_sale ''accepted'' False)
     = Inr (after_sale ''accepted'' False)
   \<and> created_at (sale ''pending'' False) + time_limit (sale ''pending'' False) * hour < 7200000000
   \<and> map_sum id (\<lambda>d. (map status (transactions d), map accepted_at (transactions d), ledger d))
        (update_transaction_status 7200000000 10 ''accepted'' (after_sale ''pending'' False))
     = Inr ([''accepted''], [Some 7200000000], [(1, 50000, 50000), (2, 100000, 0)])"
  by code_simp

text \<open>
  Claim C5, as the code has it. \<^verbatim>\<open>update_transaction_status(id, 'completed')\<close> on an
  accepted transaction does not read its conditions. When the sender's escrow balance
  less the amount and the receiver's balance plus the amount fit \<^verbatim>\<open>DECIMAL(12, 2)\<close>,
  the call succeeds: the status becomes \<^verbatim>\<open>completed\<close>, \<^verbatim>\<open>completed_at\<close> the time
  of the call, the sender's escrow balance goes down by the amount and the receiver's
  balance up by it. When one of them does not fit, the call fails with a numeric field
  overflow and changes nothing. On a completed transaction the call returns without an
  error and without any change; on a pending or cancelled one it fails and changes
  nothing; on an unknown id it fails with \<^verbatim>\<open>Transaction not found\<close>. That every
  condition is met is checked by the client: \<^verbatim>\<open>handleMarkCondition\<close> asks for the
  completion exactly when every condition of the list it has just written is completed.
\<close>

theorem complete_transaction:
  "(select_transaction p d = Some rec \<and> status rec = ''accepted'' \<longrightarrow>
      (if list_all (\<lambda>(i, b, e).
               (i = sender_id rec \<longrightarrow> fits_DECIMAL_12_2 (of_int (e - amount rec)))
               \<and> (i = receiver_id rec \<longrightarrow> fits_DECIMAL_12_2 (of_int (b + amount rec))))
             (ledger d)
       then (\<exists>d'. update_transaction_status now p ''completed'' d = Inr d'
            \<and> transactions d' = map (\<lambda>t. if tx_id t = p
                   then t\<lparr>status := ''completed'', completed_at := Some now\<rparr> else t)
                     (transactions d)
            \<and> ledger d' = map (\<lambda>(i, b, e).
                   (i, if i = receiver_id rec then b + amount rec else b,
                       if i = sender_id rec then e - amount rec else e)) (ledger d))
       else update_transaction_status now p ''completed'' d = Inl Numeric_field_overflow
            \<and> committed d (update_transaction_status now p ''completed'' d) = d))
   \<and> (select_transaction p d = Some rec \<and> status rec = ''completed'' \<longrightarrow>
        update_transaction_status now p ''completed'' d = Inr d)
   \<and> (select_transaction p d = Some rec \<and> status rec \<noteq> ''accepted'' \<and> status rec \<noteq> ''completed'' \<longrightarrow>
        update_transaction_status now p ''completed'' d = Inl Must_be_accepted
        \<and> committed d (update_transaction_status now p ''completed'' d) = d)
   \<and> (select_transaction p d = None \<longrightarrow>
        update_transaction_status now p ''completed'' d = Inl Transaction_not_found)
   \<and> (handleMarkCondition tr i c = Some reqs \<longrightarrow>
        (Set_status ''completed'' \<in> set reqs)
          = list_all completed ((conditions tr)[i := (conditions tr ! i)\<lparr>completed := c\<rparr>]))"
proof (intro conjI impI)
  assume a: "select_transaction p d = Some rec \<and> status rec = ''accepted''"
  then have s: "select_transaction p d = Some rec" and st: "status rec = ''accepted''" by simp_all
  show "if list_all (\<lambda>(i, b, e).
               (i = sender_id rec \<longrightarrow> fits_DECIMAL_12_2 (of_int (e - amount rec)))
               \<and> (i = receiver_id rec \<longrightarrow> fits_DECIMAL_12_2 (of_int (b + amount rec))))
             (ledger d)
       then (\<exists>d'. update_transaction_status now p ''completed'' d = Inr d'
            \<and> transactions d' = map (\<lambda>t. if tx_id t = p
                   then t\<lparr>status := ''completed'', completed_at := Some now\<rparr> else t)
                     (transactions d)
            \<and> ledger d' = map (\<lambda>(i, b, e).
                   (i, if i = receiver_id rec then b + amount rec else b,
                       if i = sender_id rec then e - amount rec else e)) (ledger d))
       else update_transaction_status now p ''completed'' d = Inl Numeric_field_overflow
            \<and> committed d (update_transaction_status now p ''completed'' d) = d"
  proof (cases "list_all (\<lambda>(i, b, e).
               (i = sender_id rec \<longrightarrow> fits_DECIMAL_12_2 (of_int (e - amount rec)))
               \<and> (i = receiver_id rec \<longrightarrow> fits_DECIMAL_12_2 (of_int (b + amount rec))))
             (ledger d)")
    case True
    with update_complete [OF s st, of now] show ?thesis by simp
  next
    case False
    with update_complete [OF s st, of now]
    have "update_transaction_status now p ''completed'' d = Inl Numeric_field_overflow" by simp
    with False show ?thesis by (simp add: committed_def)
  qed
next
  assume "select_transaction p d = Some rec \<and> status rec = ''completed''"
  then show "update_transaction_status now p ''completed'' d = Inr d"
    by (simp add: update_same_status)
next
  assume a: "select_transaction p d = Some rec \<and> status rec \<noteq> ''accepted'' \<and> status rec \<noteq> ''completed''"
  then show r: "update_transaction_status now p ''completed'' d = Inl Must_be_accepted"
    by (simp add: update_complete_refused)
  show "committed d (update_transaction_status now p ''completed'' d) = d"
    by (simp add: r committed_def)
next
  assume "select_transaction p d = None"
  then show "update_transaction_status now p ''completed'' d = Inl Transaction_not_found"
    by (rule update_not_found)
next
  assume "handleMarkCondition tr i c = Some reqs"
  then show "(Set_status ''completed'' \<in> set reqs)
          = list_all completed ((conditions tr)[i := (conditions tr ! i)\<lparr>completed := c\<rparr>])"
    by (auto simp: handleMarkCondition_def Let_def split: if_splits)
qed

theorem complete_transaction_witness:
  "select_transaction 10 (after_sale ''accepted'' True) = Some (sale ''accepted'' True)
   \<and> status (sale ''accepted'' True) = ''accepted''
   \<and> (\<exists>d'. update_transaction_status 120000000 10 ''completed'' (after_sale ''accepted'' True) = Inr d'
         \<and> map status (transactions d') = [''completed'']
         \<and> ledger d' = [(1, 50000, 0), (2, 150000, 0)])
   \<and> ledger (full_purse 2 (after_sale ''accepted'' True)) = [(1, 50000, 50000), (2, 999999999999, 0)]
   \<and> update_transaction_status 120000000 10 ''completed'' (full_purse 2 (after_sale ''accepted'' True))
       = Inl Numeric_field_overflow
   \<and> status (sale ''pending'' True) \<noteq> ''accepted'' \<and> status (sale ''pending'' True) \<noteq> ''completed''
   \<and> select_transaction 10 (after_sale ''pending'' True) = Some (sale ''pending'' True)
   \<and> update_transaction_status 120000000 10 ''completed'' (after_sale ''pending'' True)
       = Inl Must_be_accepted
   \<and> handleMarkCondition (sale ''accepted'' False) 0 True
       = Some [Set_conditions [\<lparr>description = ''goods delivered'', completed = True\<rparr>],
               Set_status ''completed'']"
proof -
  let ?d = "after_sale ''accepted'' True" and ?r = "sale ''accepted'' True"
  have h1: "select_transaction 10 ?d = Some ?r" by code_simp
  have h2: "status ?r = ''accepted''" by code_simp
  have h3: "status (sale ''pending'' True) \<noteq> ''accepted'' \<and> status (sale ''pending'' True) \<noteq> ''completed''"
    by code_simp
  have h4: "select_transaction 10 (after_sale ''pending'' True) = Some (sale ''pending'' True)"
    by code_simp
  have h5: "handleMarkCondition (sale ''accepted'' False) 0 True
       = Some [Set_conditions [\<lparr>description = ''goods delivered'', completed = True\<rparr>],
               Set_status ''completed'']"
    by code_simp
  have h6: "select_transaction 10 (full_purse 2 ?d) = Some ?r" by code_simp
  have h7: "ledger (full_purse 2 ?d) = [(1, 50000, 50000), (2, 999999999999, 0)]" by code_simp
  have c1: "list_all (\<lambda>(i, b, e).
               (i = sender_id ?r \<longrightarrow> fits_DECIMAL_12_2 (of_int (e - amount ?r)))
               \<and> (i = receiver_id ?r \<longrightarrow> fits_DECIMAL_12_2 (of_int (b + amount ?r))))
             (ledger ?d)"
    by code_simp
  have c2: "\<not> list_all (\<lambda>(i, b, e).
               (i = sender_id ?r \<longrightarrow> fits_DECIMAL_12_2 (of_int (e - amount ?r)))
               \<and> (i = receiver_id ?r \<longrightarrow> fits_DECIMAL_12_2 (of_int (b + amount ?r))))
             (ledger (full_purse 2 ?d))"
    by code_simp
  have e1: "map status (map (\<lambda>t. if tx_id t = 10
                then t\<lparr>status := ''completed'', completed_at := Some 120000000\<rparr> else t)
                (transactions ?d)) = [''completed'']"
    by code_simp
  have e2: "map (\<lambda>(i, b, e). (i, if i = receiver_id ?r then b + amount ?r else b,
                              if i = sender_id ?r then e - amount ?r else e))
              (ledger ?d) = [(1, 50000, 0), (2, 150000, 0)]"
    by code_simp
  from complete_transaction [of 10 ?d ?r 120000000 "sale ''accepted'' False" 0 True
      "[Set_conditions [\<lparr>description = ''goods delivered'', completed = True\<rparr>],
               Set_status ''completed'']"] h1 h2 c1
  obtain d' where d': "update_transaction_status 120000000 10 ''completed'' ?d = Inr d'"
    "transactions d' = map (\<lambda>t. if tx_id t = 10
                then t\<lparr>status := ''completed'', completed_at := Some 120000000\<rparr> else t)
                (transactions ?d)"
    "ledger d' = map (\<lambda>(i, b, e). (i, if i = receiver_id ?r then b + amount ?r else b,
                              if i = sender_id ?r then e - amount ?r else e))
              (ledger ?d)"
    by auto
  have a: "\<exists>d'. update_transaction_status 120000000 10 ''completed'' ?d = Inr d'
         \<and> map status (transactions d') = [''completed'']
         \<and> ledger d' = [(1, 50000, 0), (2, 150000, 0)]"
    using d' e1 e2 by simp
  have b: "update_transaction_status 120000000 10 ''completed'' (after_sale ''pending'' True)
       = Inl Must_be_accepted"
    using complete_transaction [of 10 "after_sale ''pending'' True" "sale ''pending'' True" 120000000]
      h3 h4 by blast
  have c: "update_transaction_status 120000000 10 ''completed'' (full_purse 2 ?d)
       = Inl Numeric_field_overflow"
    using complete_transaction [of 10 "full_purse 2 ?d" ?r 120000000] h6 h2 c2 by auto
  show ?thesis using h1 h2 h3 h4 h5 h7 a b c by blast
qed

text \<open>
  Claim C5 as stated fails twice: an accepted transaction whose only condition is not
  met is completed, with the transfer, and completing a completed transaction is no
  error.
\<close>

theorem complete_transaction_counterexample:
  "map (map completed \<circ> conditions) (transactions (after_sale ''accepted'' False)) = [[False]]
   \<and> map_sum id (\<lambda>d. (map status (transactions d), ledger d))
        (update_transaction_status 120000000 10 ''completed'' (after_sale ''accepted'' False))
      = Inr ([''completed''], [(1, 50000, 0), (2, 150000, 0)])
   \<and> update_transaction_status 180000000 10 ''completed'' (after_sale ''completed'' True)
      = Inr (after_sale ''completed'' True)"
  by code_simp

text \<open>
  Claim C1 asks that a completed or cancelled transaction accepts no other status. Only
  the \<^verbatim>\<open>completed\<close> branch of the procedure checks the status it comes from. Here
  Alice's sale to Bob has been completed, Bob holds the 500.00, and the sale is then
  cancelled: the call succeeds and returns 500.00 from Alice's empty escrow to her
  balance. A cancelled sale, in the same way, is accepted.
\<close>

theorem cancel_after_completion:
  "map (\<lambda>t. (tx_id t, status t, amount t)) (transactions (after_sale ''completed'' True))
     = [(10, ''completed'', 50000)]
   \<and> ledger (after_sale ''completed'' True) = [(1, 50000, 0), (2, 150000, 0)]
   \<and> map_sum id (\<lambda>d. (map (\<lambda>t. (tx_id t, status t, amount t)) (transactions d), ledger d))
        (update_transaction_status 180000000 10 ''cancelled'' (after_sale ''completed'' True))
      = Inr ([(10, ''cancelled'', 50000)], [(1, 100000, - 50000), (2, 150000, 0)])
   \<and> map_sum id (\<lambda>d. (map (\<lambda>t. (tx_id t, status t, amount t)) (transactions d), ledger d))
        (update_transaction_status 180000000 10 ''accepted'' (after_sale ''cancelled'' True))
      = Inr ([(10, ''accepted'', 50000)], [(1, 100000, 0), (2, 100000, 0)])"
  by code_simp

section \<open>The sweep\<close>

lemma find_distinct_key:
  "distinct (map key xs) \<Longrightarrow> x \<in> set xs \<Longrightarrow> find (\<lambda>y. key y = key x) xs = Some x"
  by (induction xs) (auto simp: image_iff)

lemma select_transaction_member:
  "distinct (map tx_id (transactions d)) \<Longrightarrow> t \<in> set (transactions d) \<Longrightarrow>
   select_transaction (tx_id t) d = Some t"
  unfolding select_transaction_def by (rule find_distinct_key)

lemma sent_total_Cons:
  "sent_total i (t # ts) = (if sender_id t = i then amount t else 0) + sent_total i ts"
  by (simp add: sent_total_def)

lemma sent_total_nonneg:
  "list_all (\<lambda>t. P t \<longrightarrow> 0 \<le> amount t) ts \<Longrightarrow> 0 \<le> sent_total i (filter P ts)"
  by (induction ts) (auto simp: sent_total_def)

lemma cancel_map_compose:
  assumes "a \<notin> I"
  shows "map (\<lambda>x. if tx_id x \<in> I then x\<lparr>status := st, cancelled_at := c\<rparr> else x)
           (map (\<lambda>x. if tx_id x = a then x\<lparr>status := st, cancelled_at := c\<rparr> else x) xs)
       = map (\<lambda>x. if tx_id x \<in> insert a I then x\<lparr>status := st, cancelled_at := c\<rparr> else x) xs"
  using assms by (induction xs) simp_all

lemma ledger_map_compose:
  "map (\<lambda>(i, b, e). (i, b + S i, e - S i))
     (map (\<lambda>(i, b, e). if i = s then (i, b + a, e - a) else (i, b, e)) l)
   = map (\<lambda>(i, b, e). (i, b + ((if s = i then a else 0) + S i),
                          e - ((if s = i then a else 0) + S i))) (l :: (uuid \<times> money \<times> money) list)"
  by (induction l) auto

lemma expired_cursor_eq:
  "expired_cursor now t =
     (if status t = ''pending'' then
        if deadline_valid t then Inr (created_at t + time_limit t * hour < now)
        else Inl Timestamp_out_of_range
      else Inr False)"
  by (simp add: expired_cursor_def timestamp_pl_interval_def deadline_valid_def)

lemma expired_cursor_Inr:
  "expired_cursor now t = Inr x \<Longrightarrow>
     (status t = ''pending'' \<longrightarrow> deadline_valid t) \<and> x = expired now t"
  by (auto simp: expired_cursor_eq expired_def split: if_splits)

lemma update_cancel_Inr:
  assumes "select_transaction p d = Some rec" "status rec \<noteq> ''cancelled''"
    and "update_transaction_status now p ''cancelled'' d = Inr d'"
  shows "transactions d' = map (\<lambda>t. if tx_id t = p
              then t\<lparr>status := ''cancelled'', cancelled_at := Some now\<rparr> else t) (transactions d)
       \<and> ledger d' = map (\<lambda>(i, b, e). if i = sender_id rec
                             then (i, b + amount rec, e - amount rec) else (i, b, e)) (ledger d)"
  using update_cancel [OF assms(1,2), of now] assms(3) by (auto split: if_splits)

lemma update_cancel_Inl:
  assumes "select_transaction p d = Some rec" "status rec \<noteq> ''cancelled''"
    and "update_transaction_status now p ''cancelled'' d = Inl e"
  shows "e = Numeric_field_overflow"
  using update_cancel [OF assms(1,2), of now] assms(3) by (auto split: if_splits)

lemma sweep_step_tables:
  assumes "distinct (map tx_id (transactions d))" and "set (t # ts) \<subseteq> set (transactions d)"
    and "distinct (map tx_id (t # ts))"
    and "transactions d1 = map (\<lambda>x. if tx_id x = tx_id t
              then x\<lparr>status := ''cancelled'', cancelled_at := Some now\<rparr> else x) (transactions d)"
  shows "distinct (map tx_id (transactions d1))" and "set ts \<subseteq> set (transactions d1)"
proof -
  let ?g = "\<lambda>x. if tx_id x = tx_id t then x\<lparr>status := ''cancelled'', cancelled_at := Some now\<rparr> else x"
  have ids: "map tx_id (transactions d1) = map tx_id (transactions d)"
    unfolding assms(4) by (induction "transactions d") simp_all
  with assms(1) show "distinct (map tx_id (transactions d1))" by simp
  have notin: "tx_id t \<notin> tx_id ` set ts" using assms(3) by simp
  show "set ts \<subseteq> set (transactions d1)"
  proof
    fix x assume x: "x \<in> set ts"
    have ne: "tx_id x \<noteq> tx_id t"
    proof
      assume e: "tx_id x = tx_id t"
      from x have "tx_id x \<in> tx_id ` set ts" by (rule imageI)
      with e notin show False by simp
    qed
    from x assms(2) have "x \<in> set (transactions d)" by auto
    then have "?g x \<in> ?g ` set (transactions d)" by (rule imageI)
    with ne show "x \<in> set (transactions d1)" unfolding assms(4) by simp
  qed
qed

lemma process_expired_loop_Inr:
  assumes "distinct (map tx_id (transactions d))" and "set ts \<subseteq> set (transactions d)"
    and "distinct (map tx_id ts)" and "process_expired_loop now ts d = Inr d'"
  shows "list_all (\<lambda>t. status t = ''pending'' \<longrightarrow> deadline_valid t) ts
     \<and> transactions d' = map (\<lambda>t. if tx_id t \<in> tx_id ` set (filter (expired now) ts)
            then t\<lparr>status := ''cancelled'', cancelled_at := Some now\<rparr> else t) (transactions d)
     \<and> ledger d' = map (\<lambda>(i, b, e). (i, b + sent_total i (filter (expired now) ts),
                                       e - sent_total i (filter (expired now) ts))) (ledger d)"
  using assms
proof (induction ts arbitrary: d)
  case Nil
  then show ?case by (simp add: sent_total_def case_prod_beta)
next
  case (Cons t ts)
  from Cons.prems(4) obtain x where x: "expired_cursor now t = Inr x"
    by (cases "expired_cursor now t") simp_all
  from expired_cursor_Inr [OF x] have v: "status t = ''pending'' \<longrightarrow> deadline_valid t"
    and xe: "x = expired now t" by simp_all
  show ?case
  proof (cases "expired now t")
    case True
    with Cons.prems(4) x xe obtain d1 where
      u: "update_transaction_status now (tx_id t) ''cancelled'' d = Inr d1"
      and rest: "process_expired_loop now ts d1 = Inr d'"
      by (cases "update_transaction_status now (tx_id t) ''cancelled'' d") simp_all
    from Cons.prems have sel: "select_transaction (tx_id t) d = Some t"
      by (intro select_transaction_member) simp_all
    from True have st: "status t \<noteq> ''cancelled''" by (simp add: expired_def)
    from update_cancel_Inr [OF sel st u] have
      d1: "transactions d1 = map (\<lambda>x. if tx_id x = tx_id t
              then x\<lparr>status := ''cancelled'', cancelled_at := Some now\<rparr> else x) (transactions d)"
        "ledger d1 = map (\<lambda>(i, b, e). if i = sender_id t
                             then (i, b + amount t, e - amount t) else (i, b, e)) (ledger d)"
      by simp_all
    note p = sweep_step_tables [OF Cons.prems(1,2,3) d1(1)]
    have p3: "distinct (map tx_id ts)" using Cons.prems(3) by simp
    from Cons.IH [OF p p3 rest] have
      ih: "list_all (\<lambda>t. status t = ''pending'' \<longrightarrow> deadline_valid t) ts"
        "transactions d' = map (\<lambda>t. if tx_id t \<in> tx_id ` set (filter (expired now) ts)
            then t\<lparr>status := ''cancelled'', cancelled_at := Some now\<rparr> else t) (transactions d1)"
        "ledger d' = map (\<lambda>(i, b, e). (i, b + sent_total i (filter (expired now) ts),
                                       e - sent_total i (filter (expired now) ts))) (ledger d1)"
      by simp_all
    have notin: "tx_id t \<notin> tx_id ` set (filter (expired now) ts)"
      using Cons.prems(3) by auto
    have T: "transactions d' = map (\<lambda>x. if tx_id x \<in> tx_id ` set (filter (expired now) (t # ts))
            then x\<lparr>status := ''cancelled'', cancelled_at := Some now\<rparr> else x) (transactions d)"
      unfolding ih(2) d1(1) using cancel_map_compose [OF notin] True by simp
    have L: "ledger d' = map (\<lambda>(i, b, e). (i, b + sent_total i (filter (expired now) (t # ts)),
                                       e - sent_total i (filter (expired now) (t # ts)))) (ledger d)"
      unfolding ih(3) d1(2) ledger_map_compose using True by (simp add: sent_total_Cons)
    from v ih(1) T L show ?thesis by simp
  next
    case False
    with Cons.prems(4) x xe have rest: "process_expired_loop now ts d = Inr d'" by simp
    have p2: "set ts \<subseteq> set (transactions d)" using Cons.prems(2) by simp
    have p3: "distinct (map tx_id ts)" using Cons.prems(3) by simp
    from Cons.IH [OF Cons.prems(1) p2 p3 rest] v False show ?thesis by simp
  qed
qed

lemma process_expired_loop_Inl:
  assumes "distinct (map tx_id (transactions d))" and "set ts \<subseteq> set (transactions d)"
    and "distinct (map tx_id ts)" and "process_expired_loop now ts d = Inl e"
  shows "e = Timestamp_out_of_range \<or> e = Numeric_field_overflow"
  using assms
proof (induction ts arbitrary: d)
  case Nil
  then show ?case by simp
next
  case (Cons t ts)
  show ?case
  proof (cases "expired_cursor now t")
    case (Inl e')
    with Cons.prems(4) have "e = e'" by simp
    with Inl show ?thesis by (auto simp: expired_cursor_eq split: if_splits)
  next
    case (Inr x)
    from expired_cursor_Inr [OF Inr] have xe: "x = expired now t" by simp
    show ?thesis
    proof (cases "expired now t")
      case True
      from Cons.prems have sel: "select_transaction (tx_id t) d = Some t"
        by (intro select_transaction_member) simp_all
      from True have st: "status t \<noteq> ''cancelled''" by (simp add: expired_def)
      show ?thesis
      proof (cases "update_transaction_status now (tx_id t) ''cancelled'' d")
        case (Inl e')
        with Cons.prems(4) Inr xe True have "e = e'" by simp
        with update_cancel_Inl [OF sel st Inl] show ?thesis by simp
      next
        case u: (Inr d1)
        with Cons.prems(4) Inr xe True have rest: "process_expired_loop now ts d1 = Inl e" by simp
        from update_cancel_Inr [OF sel st u] have
          d1: "transactions d1 = map (\<lambda>x. if tx_id x = tx_id t
              then x\<lparr>status := ''cancelled'', cancelled_at := Some now\<rparr> else x) (transactions d)"
          by simp
        note p = sweep_step_tables [OF Cons.prems(1,2,3) d1]
        have p3: "distinct (map tx_id ts)" using Cons.prems(3) by simp
        from Cons.IH [OF p p3 rest] show ?thesis .
      qed
    next
      case False
      with Cons.prems(4) Inr xe have rest: "process_expired_loop now ts d = Inl e" by simp
      have p2: "set ts \<subseteq> set (transactions d)" using Cons.prems(2) by simp
      have p3: "distinct (map tx_id ts)" using Cons.prems(3) by simp
      from Cons.IH [OF Cons.prems(1) p2 p3 rest] show ?thesis .
    qed
  qed
qed

lemma fits_between:
  assumes "fits_DECIMAL_12_2 (of_int a)" and "fits_DECIMAL_12_2 (of_int c)"
    and "a \<le> b" and "b \<le> c"
  shows "fits_DECIMAL_12_2 (of_int b)"
  using assms by (simp add: fits_of_int)

lemma process_expired_loop_returns:
  assumes "distinct (map tx_id (transactions d))" and "set ts \<subseteq> set (transactions d)"
    and "distinct (map tx_id ts)"
    and "list_all (\<lambda>t. status t = ''pending'' \<longrightarrow> deadline_valid t) ts"
    and "list_all (\<lambda>t. expired now t \<longrightarrow> 0 \<le> amount t) ts"
    and "list_all (\<lambda>(i, b, e).
           fits_DECIMAL_12_2 (of_int b) \<and> fits_DECIMAL_12_2 (of_int e)
         \<and> fits_DECIMAL_12_2 (of_int (b + sent_total i (filter (expired now) ts)))
         \<and> fits_DECIMAL_12_2 (of_int (e - sent_total i (filter (expired now) ts)))) (ledger d)"
  shows "\<exists>d'. process_expired_loop now ts d = Inr d'"
  using assms
proof (induction ts arbitrary: d)
  case Nil
  then show ?case by simp
next
  case (Cons t ts)
  have p3: "distinct (map tx_id ts)" using Cons.prems(3) by simp
  have p4: "list_all (\<lambda>t. status t = ''pending'' \<longrightarrow> deadline_valid t) ts"
    using Cons.prems(4) by simp
  have p5: "list_all (\<lambda>t. expired now t \<longrightarrow> 0 \<le> amount t) ts"
    using Cons.prems(5) by simp
  from Cons.prems(4) have c: "expired_cursor now t = Inr (expired now t)"
    by (auto simp: expired_cursor_eq expired_def)
  have nn: "0 \<le> sent_total i (filter (expired now) ts)" for i
    using p5 by (rule sent_total_nonneg)
  show ?case
  proof (cases "expired now t")
    case True
    from Cons.prems have sel: "select_transaction (tx_id t) d = Some t"
      by (intro select_transaction_member) simp_all
    from True have st: "status t \<noteq> ''cancelled''" by (simp add: expired_def)
    from True Cons.prems(5) have a0: "0 \<le> amount t" by simp
    have S: "sent_total i (filter (expired now) (t # ts))
        = (if sender_id t = i then amount t else 0) + sent_total i (filter (expired now) ts)" for i
      using True by (simp add: sent_total_Cons)
    have bound: "list_all (\<lambda>(i, b, e). i = sender_id t \<longrightarrow>
             fits_DECIMAL_12_2 (of_int (b + amount t)) \<and> fits_DECIMAL_12_2 (of_int (e - amount t)))
           (ledger d)"
      unfolding list_all_iff
    proof (intro ballI, clarify)
      fix b e assume m: "(sender_id t, b, e) \<in> set (ledger d)"
      from Cons.prems(6) m have f:
        "fits_DECIMAL_12_2 (of_int b)" "fits_DECIMAL_12_2 (of_int e)"
        "fits_DECIMAL_12_2 (of_int (b + sent_total (sender_id t) (filter (expired now) (t # ts))))"
        "fits_DECIMAL_12_2 (of_int (e - sent_total (sender_id t) (filter (expired now) (t # ts))))"
        unfolding list_all_iff by fastforce+
      have 1: "fits_DECIMAL_12_2 (of_int (b + amount t))"
        using f(1,3) a0 nn [of "sender_id t"] unfolding S
        by (simp add: fits_of_int del: of_int_add of_int_diff)
      have 2: "fits_DECIMAL_12_2 (of_int (e - amount t))"
        using f(4,2) a0 nn [of "sender_id t"] unfolding S
        by (simp add: fits_of_int del: of_int_add of_int_diff)
      from 1 2 show "fits_DECIMAL_12_2 (of_int (b + amount t)) \<and> fits_DECIMAL_12_2 (of_int (e - amount t))" ..
    qed
    from update_cancel [OF sel st, of now] bound obtain d1 where
      u: "update_transaction_status now (tx_id t) ''cancelled'' d = Inr d1"
      by (auto split: if_splits)
    from update_cancel_Inr [OF sel st u] have
      d1: "transactions d1 = map (\<lambda>x. if tx_id x = tx_id t
              then x\<lparr>status := ''cancelled'', cancelled_at := Some now\<rparr> else x) (transactions d)"
        "ledger d1 = map (\<lambda>(i, b, e). if i = sender_id t
                             then (i, b + amount t, e - amount t) else (i, b, e)) (ledger d)"
      by simp_all
    note p = sweep_step_tables [OF Cons.prems(1,2,3) d1(1)]
    have p6: "list_all (\<lambda>(i, b, e).
           fits_DECIMAL_12_2 (of_int b) \<and> fits_DECIMAL_12_2 (of_int e)
         \<and> fits_DECIMAL_12_2 (of_int (b + sent_total i (filter (expired now) ts)))
         \<and> fits_DECIMAL_12_2 (of_int (e - sent_total i (filter (expired now) ts)))) (ledger d1)"
      unfolding d1(2) list_all_iff
    proof (intro ballI, clarify)
      fix i b1 e1
      assume "(i, b1, e1) \<in> set (map (\<lambda>(i, b, e). if i = sender_id t
                             then (i, b + amount t, e - amount t) else (i, b, e)) (ledger d))"
      then obtain b e where m: "(i, b, e) \<in> set (ledger d)"
        and eq: "b1 = (if i = sender_id t then b + amount t else b)"
                "e1 = (if i = sender_id t then e - amount t else e)"
        by (auto split: if_splits)
      from Cons.prems(6) m have f:
        "fits_DECIMAL_12_2 (of_int b)" "fits_DECIMAL_12_2 (of_int e)"
        "fits_DECIMAL_12_2 (of_int (b + sent_total i (filter (expired now) (t # ts))))"
        "fits_DECIMAL_12_2 (of_int (e - sent_total i (filter (expired now) (t # ts))))"
        unfolding list_all_iff by fastforce+
      show "fits_DECIMAL_12_2 (of_int b1) \<and> fits_DECIMAL_12_2 (of_int e1)
          \<and> fits_DECIMAL_12_2 (of_int (b1 + sent_total i (filter (expired now) ts)))
          \<and> fits_DECIMAL_12_2 (of_int (e1 - sent_total i (filter (expired now) ts)))"
      proof (cases "i = sender_id t")
        case True
        with bound m have "fits_DECIMAL_12_2 (of_int (b + amount t))"
          "fits_DECIMAL_12_2 (of_int (e - amount t))"
          unfolding list_all_iff by fastforce+
        with True eq have g: "fits_DECIMAL_12_2 (of_int b1)" "fits_DECIMAL_12_2 (of_int e1)"
          by (simp_all del: of_int_add of_int_diff)
        have "b1 + sent_total i (filter (expired now) ts)
            = b + sent_total i (filter (expired now) (t # ts))"
          "e1 - sent_total i (filter (expired now) ts)
            = e - sent_total i (filter (expired now) (t # ts))"
          unfolding S using True eq by simp_all
        with f(3,4) have "fits_DECIMAL_12_2 (of_int (b1 + sent_total i (filter (expired now) ts)))"
          "fits_DECIMAL_12_2 (of_int (e1 - sent_total i (filter (expired now) ts)))"
          by (simp_all only:)
        with g show ?thesis by blast
      next
        case False
        then have "sent_total i (filter (expired now) (t # ts)) = sent_total i (filter (expired now) ts)"
          unfolding S by simp
        with f False eq show ?thesis by simp
      qed
    qed
    from Cons.IH [OF p p3 p4 p5 p6] obtain d' where "process_expired_loop now ts d1 = Inr d'" ..
    with c u True show ?thesis by simp
  next
    case False
    have p2: "set ts \<subseteq> set (transactions d)" using Cons.prems(2) by simp
    have p6: "list_all (\<lambda>(i, b, e).
           fits_DECIMAL_12_2 (of_int b) \<and> fits_DECIMAL_12_2 (of_int e)
         \<and> fits_DECIMAL_12_2 (of_int (b + sent_total i (filter (expired now) ts)))
         \<and> fits_DECIMAL_12_2 (of_int (e - sent_total i (filter (expired now) ts)))) (ledger d)"
      using Cons.prems(6) False by simp
    from Cons.IH [OF Cons.prems(1) p2 p3 p4 p5 p6] obtain d' where
      "process_expired_loop now ts d = Inr d'" ..
    with c False show ?thesis by simp
  qed
qed

lemma cancel_by_id_eq:
  assumes "distinct (map tx_id ts)"
  shows "map (\<lambda>t. if tx_id t \<in> tx_id ` set (filter P ts) then f t else t) ts
       = map (\<lambda>t. if P t then f t else t) ts"
proof (rule map_cong [OF refl])
  fix t assume m: "t \<in> set ts"
  have "tx_id t \<in> tx_id ` set (filter P ts) \<longleftrightarrow> P t"
  proof
    assume "tx_id t \<in> tx_id ` set (filter P ts)"
    then obtain x where x: "x \<in> set ts" "P x" "tx_id x = tx_id t" by auto
    from assms x(1) m x(3) have "x = t" by (simp add: distinct_map inj_on_def)
    with x(2) show "P t" by simp
  next
    assume "P t"
    with m have "t \<in> set (filter P ts)" by simp
    then show "tx_id t \<in> tx_id ` set (filter P ts)" by (rule imageI)
  qed
  then show "(if tx_id t \<in> tx_id ` set (filter P ts) then f t else t) = (if P t then f t else t)"
    by simp
qed

lemma sweep_Inr:
  assumes "distinct (map tx_id (transactions d))"
    and "process_expired_transactions now d = Inr d'"
  shows "list_all (\<lambda>t. status t = ''pending'' \<longrightarrow> deadline_valid t) (transactions d)
     \<and> transactions d' =
         map (\<lambda>t. if expired now t
                  then t\<lparr>status := ''cancelled'', cancelled_at := Some now\<rparr> else t)
           (transactions d)
     \<and> ledger d' =
         map (\<lambda>(i, b, e). (i, b + sent_total i (filter (expired now) (transactions d)),
                              e - sent_total i (filter (expired now) (transactions d)))) (ledger d)"
  using process_expired_loop_Inr [OF assms(1) subset_refl assms(1),
      OF assms(2) [unfolded process_expired_transactions_def]]
  unfolding cancel_by_id_eq [OF assms(1)] .

lemma sweep_Inl:
  assumes "distinct (map tx_id (transactions d))"
    and "process_expired_transactions now d = Inl e"
  shows "e = Timestamp_out_of_range \<or> e = Numeric_field_overflow"
  using process_expired_loop_Inl [OF assms(1) subset_refl assms(1),
      OF assms(2) [unfolded process_expired_transactions_def]] .

lemma sweep_returns:
  assumes "distinct (map tx_id (transactions d))"
    and "list_all (\<lambda>t. status t = ''pending'' \<longrightarrow> deadline_valid t) (transactions d)"
    and "list_all (\<lambda>t. expired now t \<longrightarrow> 0 \<le> amount t) (transactions d)"
    and "list_all (\<lambda>(i, b, e).
           fits_DECIMAL_12_2 (of_int b) \<and> fits_DECIMAL_12_2 (of_int e)
         \<and> fits_DECIMAL_12_2 (of_int (b + sent_total i (filter (expired now) (transactions d))))
         \<and> fits_DECIMAL_12_2 (of_int (e - sent_total i (filter (expired now) (transactions d)))))
        (ledger d)"
  shows "\<exists>d'. process_expired_transactions now d = Inr d'"
  unfolding process_expired_transactions_def
  using process_expired_loop_returns [OF assms(1) subset_refl assms(1) assms(2,3,4)] .

text \<open>
  Claim C4, as the code has it, with transaction ids distinct (the primary key). The
  sweep looks at pending transactions only and measures every deadline from
  \<^verbatim>\<open>created_at\<close>. When one call of \<^verbatim>\<open>process_expired_transactions\<close> returns, the
  deadline of every pending transaction is a timestamp; the call has cancelled exactly
  the transactions whose status is \<^verbatim>\<open>pending\<close> and whose \<^verbatim>\<open>created_at\<close> plus
  \<^verbatim>\<open>time_limit\<close> hours lies before the time of the call, setting \<^verbatim>\<open>cancelled_at\<close>
  to that time, and has left every other transaction as it is; and it has moved, for
  every user, the amounts of the cancelled transactions that user sent from the escrow
  balance back to the balance. When the call raises, it raises a timestamp out of range
  or a numeric field overflow, and it does raise when the deadline of some pending
  transaction is no timestamp. The call returns when the deadline of every pending
  transaction is a timestamp, no amount to return is negative, and every balance and
  escrow balance fits \<^verbatim>\<open>DECIMAL(12, 2)\<close> before and after the refunds.
\<close>

theorem sweep_pending_only:
  assumes "distinct (map tx_id (transactions d))"
  shows "(\<forall>d'. process_expired_transactions now d = Inr d' \<longrightarrow>
            list_all (\<lambda>t. status t = ''pending'' \<longrightarrow> deadline_valid t) (transactions d)
          \<and> transactions d' =
              map (\<lambda>t. if status t = ''pending'' \<and> created_at t + time_limit t * hour < now
                       then t\<lparr>status := ''cancelled'', cancelled_at := Some now\<rparr> else t)
                (transactions d)
          \<and> ledger d' =
              map (\<lambda>(i, b, e). (i, b + sent_total i (filter (expired now) (transactions d)),
                                   e - sent_total i (filter (expired now) (transactions d))))
                (ledger d))
       \<and> (\<forall>e. process_expired_transactions now d = Inl e \<longrightarrow>
            e = Timestamp_out_of_range \<or> e = Numeric_field_overflow)
       \<and> (\<not> list_all (\<lambda>t. status t = ''pending'' \<longrightarrow> deadline_valid t) (transactions d) \<longrightarrow>
            (\<exists>e. process_expired_transactions now d = Inl e))
       \<and> (list_all (\<lambda>t. status t = ''pending'' \<longrightarrow> deadline_valid t) (transactions d)
          \<and> list_all (\<lambda>t. expired now t \<longrightarrow> 0 \<le> amount t) (transactions d)
          \<and> list_all (\<lambda>(i, b, e).
                 fits_DECIMAL_12_2 (of_int b) \<and> fits_DECIMAL_12_2 (of_int e)
               \<and> fits_DECIMAL_12_2
                   (of_int (b + sent_total i (filter (expired now) (transactions d))))
               \<and> fits_DECIMAL_12_2
                   (of_int (e - sent_total i (filter (expired now) (transactions d)))))
              (ledger d) \<longrightarrow>
            (\<exists>d'. process_expired_transactions now d = Inr d'))"
proof (intro conjI allI impI)
  fix d' assume r: "process_expired_transactions now d = Inr d'"
  note s = sweep_Inr [OF assms r]
  from s show "list_all (\<lambda>t. status t = ''pending'' \<longrightarrow> deadline_valid t) (transactions d)"
    by blast
  from s show "transactions d' =
      map (\<lambda>t. if status t = ''pending'' \<and> created_at t + time_limit t * hour < now
               then t\<lparr>status := ''cancelled'', cancelled_at := Some now\<rparr> else t)
        (transactions d)"
    unfolding expired_def by blast
  from s show "ledger d' =
      map (\<lambda>(i, b, e). (i, b + sent_total i (filter (expired now) (transactions d)),
                           e - sent_total i (filter (expired now) (transactions d))))
        (ledger d)"
    by blast
next
  fix e assume "process_expired_transactions now d = Inl e"
  then show "e = Timestamp_out_of_range \<or> e = Numeric_field_overflow"
    by (rule sweep_Inl [OF assms])
next
  assume n: "\<not> list_all (\<lambda>t. status t = ''pending'' \<longrightarrow> deadline_valid t) (transactions d)"
  show "\<exists>e. process_expired_transactions now d = Inl e"
  proof (cases "process_expired_transactions now d")
    case (Inl e)
    then show ?thesis by blast
  next
    case (Inr d')
    from sweep_Inr [OF assms Inr] n show ?thesis by blast
  qed
next
  assume "list_all (\<lambda>t. status t = ''pending'' \<longrightarrow> deadline_valid t) (transactions d)
          \<and> list_all (\<lambda>t. expired now t \<longrightarrow> 0 \<le> amount t) (transactions d)
          \<and> list_all (\<lambda>(i, b, e).
                 fits_DECIMAL_12_2 (of_int b) \<and> fits_DECIMAL_12_2 (of_int e)
               \<and> fits_DECIMAL_12_2
                   (of_int (b + sent_total i (filter (expired now) (transactions d))))
               \<and> fits_DECIMAL_12_2
                   (of_int (e - sent_total i (filter (expired now) (transactions d)))))
              (ledger d)"
  then show "\<exists>d'. process_expired_transactions now d = Inr d'"
    using sweep_returns [OF assms, of now] by blast
qed

theorem sweep_pending_only_witness:
  "distinct (map tx_id (transactions sweep_table))
   \<and> map (\<lambda>t. (tx_id t, status t, created_at t + time_limit t * hour, amount t))
       (transactions sweep_table)
       = [(10, ''pending'', 3600000000, 50000), (11, ''pending'', 18000000000, 10000),
          (12, ''accepted'', 3600000000, 20000)]
   \<and> ledger sweep_table = [(1, 40000, 60000), (2, 80000, 20000)]
   \<and> (\<exists>d'. process_expired_transactions 7200000000 sweep_table = Inr d'
        \<and> map (\<lambda>t. (tx_id t, status t, cancelled_at t)) (transactions d')
            = [(10, ''cancelled'', Some 7200000000), (11, ''pending'', None),
               (12, ''accepted'', None)]
        \<and> ledger d' = [(1, 90000, 10000), (2, 80000, 20000)])
   \<and> \<not> list_all (\<lambda>t. status t = ''pending'' \<longrightarrow> deadline_valid t)
         (transactions (bad_deadline sweep_table))
   \<and> process_expired_transactions 7200000000 (bad_deadline sweep_table)
       = Inl Timestamp_out_of_range
   \<and> process_expired_transactions 7200000000 (full_purse 1 sweep_table)
       = Inl Numeric_field_overflow"
proof -
  let ?now = "7200000000 :: int"
  have h: "distinct (map tx_id (transactions sweep_table))" by code_simp
  have h0: "map (\<lambda>t. (tx_id t, status t, created_at t + time_limit t * hour, amount t))
       (transactions sweep_table)
       = [(10, ''pending'', 3600000000, 50000), (11, ''pending'', 18000000000, 10000),
          (12, ''accepted'', 3600000000, 20000)]" by code_simp
  have h1: "list_all (\<lambda>t. status t = ''pending'' \<longrightarrow> deadline_valid t) (transactions sweep_table)"
    by code_simp
  have h2: "list_all (\<lambda>t. expired ?now t \<longrightarrow> 0 \<le> amount t) (transactions sweep_table)"
    by code_simp
  have h3: "list_all (\<lambda>(i, b, e).
                 fits_DECIMAL_12_2 (of_int b) \<and> fits_DECIMAL_12_2 (of_int e)
               \<and> fits_DECIMAL_12_2
                   (of_int (b + sent_total i (filter (expired ?now) (transactions sweep_table))))
               \<and> fits_DECIMAL_12_2
                   (of_int (e - sent_total i (filter (expired ?now) (transactions sweep_table)))))
              (ledger sweep_table)"
    by code_simp
  have l: "ledger sweep_table = [(1, 40000, 60000), (2, 80000, 20000)]" by code_simp
  have e1: "map (\<lambda>t. (tx_id t, status t, cancelled_at t))
      (map (\<lambda>t. if status t = ''pending'' \<and> created_at t + time_limit t * hour < ?now
                  then t\<lparr>status := ''cancelled'', cancelled_at := Some ?now\<rparr> else t)
           (transactions sweep_table))
      = [(10, ''cancelled'', Some ?now), (11, ''pending'', None), (12, ''accepted'', None)]"
    by code_simp
  have e2: "map (\<lambda>(i, b, e). (i, b + sent_total i (filter (expired ?now) (transactions sweep_table)),
                              e - sent_total i (filter (expired ?now) (transactions sweep_table))))
       (ledger sweep_table) = [(1, 90000, 10000), (2, 80000, 20000)]"
    by code_simp
  have b1: "distinct (map tx_id (transactions (bad_deadline sweep_table)))" by code_simp
  have b2: "\<not> list_all (\<lambda>t. status t = ''pending'' \<longrightarrow> deadline_valid t)
         (transactions (bad_deadline sweep_table))" by code_simp
  have b3: "process_expired_transactions ?now (bad_deadline sweep_table)
       = Inl Timestamp_out_of_range" by code_simp
  have b4: "process_expired_transactions ?now (full_purse 1 sweep_table)
       = Inl Numeric_field_overflow" by code_simp
  note t = sweep_pending_only [OF h, of ?now]
  from t h1 h2 h3 obtain d' where r: "process_expired_transactions ?now sweep_table = Inr d'"
    by blast
  from t r have
    "transactions d' = map (\<lambda>t. if status t = ''pending'' \<and> created_at t + time_limit t * hour < ?now
                  then t\<lparr>status := ''cancelled'', cancelled_at := Some ?now\<rparr> else t)
           (transactions sweep_table)"
    "ledger d' = map (\<lambda>(i, b, e). (i, b + sent_total i (filter (expired ?now) (transactions sweep_table)),
                              e - sent_total i (filter (expired ?now) (transactions sweep_table))))
       (ledger sweep_table)"
    by blast+
  with e1 e2 r have "\<exists>d'. process_expired_transactions ?now sweep_table = Inr d'
        \<and> map (\<lambda>t. (tx_id t, status t, cancelled_at t)) (transactions d')
            = [(10, ''cancelled'', Some ?now), (11, ''pending'', None), (12, ''accepted'', None)]
        \<and> ledger d' = [(1, 90000, 10000), (2, 80000, 20000)]"
    by simp
  with h h0 l b2 b3 b4 show ?thesis by blast
qed

text \<open>
  Claim C4 as stated fails on accepted transactions: the sale was accepted after one
  minute, its hour from then has passed, and the sweep leaves it as it is.
\<close>

theorem sweep_pending_only_counterexample:
  "status (sale ''accepted'' False) = ''accepted''
   \<and> accepted_at (sale ''accepted'' False) = Some 60000000
   \<and> 60000000 + time_limit (sale ''accepted'' False) * hour < 7200000000
   \<and> process_expired_transactions 7200000000 (after_sale ''accepted'' False)
       = Inr (after_sale ''accepted'' False)"
  by code_simp

section \<open>The escrow invariant\<close>

text \<open>
  The invariant is kept by every call that stays inside the state machine: by every
  creation, by every sweep, and by every status update that makes a legal transition or
  changes nothing. The proofs rest on the constraints of the tables.
\<close>

lemma escrow_invariant_ledger:
  "escrow_invariant d \<longleftrightarrow>
     list_all (\<lambda>(i, b, e). e = held i (transactions d) \<and> 0 \<le> b \<and> 0 \<le> e) (ledger d)"
  by (simp add: escrow_invariant_def ledger_def list_all_iff)

lemma held_Cons:
  "held i (t # ts) =
     (if sender_id t = i \<and> (status t = ''pending'' \<or> status t = ''accepted'') then amount t else 0)
     + held i ts"
  by (auto simp: held_def)

lemma held_append:
  "held i (ts @ [t]) =
     held i ts
     + (if sender_id t = i \<and> (status t = ''pending'' \<or> status t = ''accepted'') then amount t else 0)"
  by (auto simp: held_def)

lemma held_nonneg: "list_all (\<lambda>t. 0 < amount t) ts \<Longrightarrow> 0 \<le> held i ts"
  by (induction ts) (simp_all add: held_Cons held_def)

lemma map_other_ids:
  "p \<notin> tx_id ` set ts \<Longrightarrow> map (\<lambda>t. if tx_id t = p then f t else t) ts = ts"
  by (induction ts) simp_all

lemma held_update_row:
  assumes "distinct (map tx_id ts)" and "r \<in> set ts"
    and "sender_id (f r) = sender_id r" and "amount (f r) = amount r"
  shows "held i (map (\<lambda>t. if tx_id t = tx_id r then f t else t) ts)
       = held i ts
         - (if sender_id r = i \<and> (status r = ''pending'' \<or> status r = ''accepted'')
            then amount r else 0)
         + (if sender_id r = i \<and> (status (f r) = ''pending'' \<or> status (f r) = ''accepted'')
            then amount r else 0)"
  using assms(1,2)
proof (induction ts)
  case Nil
  then show ?case by simp
next
  case (Cons t ts)
  show ?case
  proof (cases "t = r")
    case True
    with Cons.prems have "tx_id r \<notin> tx_id ` set ts" by simp
    then have "map (\<lambda>t. if tx_id t = tx_id r then f t else t) ts = ts"
      by (rule map_other_ids)
    with True assms(3,4) show ?thesis by (auto simp: held_Cons)
  next
    case False
    with Cons.prems have r: "r \<in> set ts" by simp
    then have "tx_id r \<in> tx_id ` set ts" by (rule imageI)
    with Cons.prems have "tx_id t \<noteq> tx_id r" by auto
    moreover from Cons.prems r have "held i (map (\<lambda>t. if tx_id t = tx_id r then f t else t) ts)
       = held i ts
         - (if sender_id r = i \<and> (status r = ''pending'' \<or> status r = ''accepted'')
            then amount r else 0)
         + (if sender_id r = i \<and> (status (f r) = ''pending'' \<or> status (f r) = ''accepted'')
            then amount r else 0)"
      by (intro Cons.IH) simp_all
    ultimately show ?thesis by (auto simp: held_Cons)
  qed
qed

lemma select_transaction_Some:
  "select_transaction p d = Some r \<Longrightarrow> r \<in> set (transactions d) \<and> tx_id r = p"
  by (auto simp: select_transaction_def find_Some_iff)

lemma table_constraints_update:
  assumes "table_constraints d" and "ledger d' = map g (ledger d)"
    and "\<And>x. fst (g x) = fst x"
    and "transactions d' = map h (transactions d)"
    and "\<And>t. tx_id (h t) = tx_id t" "\<And>t. amount (h t) = amount t"
  shows "table_constraints d'"
proof -
  have "map fst (ledger d') = map fst (ledger d)"
    unfolding assms(2) by (simp add: assms(3) comp_def)
  then have u: "map user_id (users d') = map user_id (users d)"
    by (simp add: ledger_def comp_def)
  have t: "map tx_id (transactions d') = map tx_id (transactions d)"
    unfolding assms(4) by (simp add: assms(5) comp_def)
  have a: "list_all (\<lambda>t. 0 < amount t) (transactions d')"
    using assms(1) unfolding assms(4) table_constraints_def
    by (auto simp: list_all_iff assms(6))
  from assms(1) u t a show ?thesis by (simp add: table_constraints_def)
qed

lemma escrow_invariantI:
  assumes "\<And>i b e. (i, b, e) \<in> set (ledger d) \<Longrightarrow>
      e = held i (transactions d) \<and> 0 \<le> b \<and> 0 \<le> e"
  shows "escrow_invariant d"
  using assms by (auto simp: escrow_invariant_ledger list_all_iff)

lemma update_preserves_invariant:
  assumes tc: "table_constraints d" and inv: "escrow_invariant d"
    and sel: "select_transaction p d = Some r" and legal: "legal_transition (status r) st"
    and run: "update_transaction_status now p st d = Inr d'"
  shows "table_constraints d' \<and> escrow_invariant d'"
proof -
  from sel have r: "r \<in> set (transactions d)" and p: "tx_id r = p"
    by (simp_all add: select_transaction_Some)
  from tc have dist: "distinct (map tx_id (transactions d))"
    and pos: "list_all (\<lambda>t. 0 < amount t) (transactions d)"
    by (simp_all add: table_constraints_def)
  from pos r have a: "0 < amount r" by (simp add: list_all_iff)
  from inv have L: "\<And>i b e. (i, b, e) \<in> set (ledger d) \<Longrightarrow>
      e = held i (transactions d) \<and> 0 \<le> b \<and> 0 \<le> e"
    by (auto simp: escrow_invariant_ledger list_all_iff)
  consider (accept) "status r = ''pending''" "st = ''accepted''"
    | (cancel) "status r = ''pending'' \<or> status r = ''accepted''" "st = ''cancelled''"
    | (complete) "status r = ''accepted''" "st = ''completed''"
    using legal by (auto simp: legal_transition_def)
  then show ?thesis
  proof cases
    case accept
    let ?f = "\<lambda>t. t\<lparr>status := ''accepted'', accepted_at := Some now\<rparr>"
    from accept have ne: "status r \<noteq> ''accepted''" by simp
    from update_accept [OF sel ne, of now] run accept have
      d': "transactions d' = map (\<lambda>t. if tx_id t = p then ?f t else t) (transactions d)"
        "ledger d' = ledger d"
      by auto
    have h: "held i (transactions d') = held i (transactions d)" for i
      unfolding d'(1) p [symmetric]
      using held_update_row [OF dist r, of ?f i] accept by simp
    have c: "table_constraints d'"
      by (rule table_constraints_update [OF tc _ _ d'(1), where g = id]) (simp_all add: d'(2))
    have "escrow_invariant d'"
      using L by (auto simp: escrow_invariant_ledger list_all_iff d'(2) h)
    with c show ?thesis by blast
  next
    case cancel
    let ?f = "\<lambda>t. t\<lparr>status := ''cancelled'', cancelled_at := Some now\<rparr>"
    from cancel have ne: "status r \<noteq> ''cancelled''" by auto
    from update_cancel_Inr [OF sel ne, of now d'] run cancel have
      d': "transactions d' = map (\<lambda>t. if tx_id t = p then ?f t else t) (transactions d)"
        "ledger d' = map (\<lambda>(i, b, e). if i = sender_id r then (i, b + amount r, e - amount r)
                                     else (i, b, e)) (ledger d)"
      by simp_all
    have h: "held i (transactions d') = held i (transactions d) - (if sender_id r = i then amount r else 0)" for i
      unfolding d'(1) p [symmetric]
      using held_update_row [OF dist r, of ?f i] cancel by auto
    have c: "table_constraints d'"
      by (rule table_constraints_update [OF tc d'(2) _ d'(1)]) (simp_all add: case_prod_beta)
    then have nn: "0 \<le> held i (transactions d')" for i
      by (simp add: table_constraints_def held_nonneg)
    have "escrow_invariant d'"
    proof (rule escrow_invariantI)
      fix i b e assume "(i, b, e) \<in> set (ledger d')"
      then obtain b0 e0 where m: "(i, b0, e0) \<in> set (ledger d)"
        and be: "b = (if i = sender_id r then b0 + amount r else b0)"
                "e = (if i = sender_id r then e0 - amount r else e0)"
        unfolding d'(2) by (auto split: if_splits)
      from L [OF m] a h [of i] nn [of i] be
      show "e = held i (transactions d') \<and> 0 \<le> b \<and> 0 \<le> e" by auto
    qed
    with c show ?thesis by blast
  next
    case complete
    let ?f = "\<lambda>t. t\<lparr>status := ''completed'', completed_at := Some now\<rparr>"
    from update_complete [OF sel complete(1), of now] run complete have
      d': "transactions d' = map (\<lambda>t. if tx_id t = p then ?f t else t) (transactions d)"
        "ledger d' = map (\<lambda>(i, b, e). (i, if i = receiver_id r then b + amount r else b,
                                        if i = sender_id r then e - amount r else e)) (ledger d)"
      by (auto split: if_splits)
    have h: "held i (transactions d') = held i (transactions d) - (if sender_id r = i then amount r else 0)" for i
      unfolding d'(1) p [symmetric]
      using held_update_row [OF dist r, of ?f i] complete by auto
    have c: "table_constraints d'"
      by (rule table_constraints_update [OF tc d'(2) _ d'(1)]) (simp_all add: case_prod_beta)
    then have nn: "0 \<le> held i (transactions d')" for i
      by (simp add: table_constraints_def held_nonneg)
    have "escrow_invariant d'"
    proof (rule escrow_invariantI)
      fix i b e assume "(i, b, e) \<in> set (ledger d')"
      then obtain b0 e0 where m: "(i, b0, e0) \<in> set (ledger d)"
        and be: "b = (if i = receiver_id r then b0 + amount r else b0)"
                "e = (if i = sender_id r then e0 - amount r else e0)"
        unfolding d'(2) by auto
      from L [OF m] a h [of i] nn [of i] be
      show "e = held i (transactions d') \<and> 0 \<le> b \<and> 0 \<le> e" by auto
    qed
    with c show ?thesis by blast
  qed
qed

lemma find_distinct_unique:
  assumes "distinct (map key xs)" and "find (\<lambda>y. key y = k) xs = Some x"
    and "y \<in> set xs" and "key y = k"
  shows "y = x"
proof -
  from assms(2) have "x \<in> set xs" and "key x = k" by (auto simp: find_Some_iff)
  moreover from assms(1) have "inj_on key (set xs)" by (simp add: distinct_map)
  ultimately show ?thesis using assms(3,4) by (auto dest: inj_onD)
qed

lemma create_preserves_invariant:
  assumes tc: "table_constraints d" and inv: "escrow_invariant d"
    and run: "create_transaction_with_escrow rnd new_id now s r amt conds hrs d = Some (Inr (t, d'))"
  shows "table_constraints d' \<and> escrow_invariant d'"
proof -
  note res = create_result [OF run]
  from res have
    U: "users d' = map (\<lambda>u. if user_id u = s
                   then u\<lparr>balance := numeric_round (of_int (balance u) - amt),
                          escrow_balance := numeric_round (of_int (escrow_balance u) + amt)\<rparr>
                   else if user_id u = r
                   then u\<lparr>unread_transactions := unread_transactions u @ [tx_id t]\<rparr>
                   else u) (users d)"
    by blast
  from res have T: "transactions d' = transactions d @ [t]" by blast
  from res have t: "sender_id t = s" "amount t = numeric_round amt" "status t = ''pending''"
      "tx_id t = new_id"
    by blast+
  from res t(4) have fresh: "\<not> list_ex (\<lambda>x. tx_id x = new_id) (transactions d)" by simp
  from res have pos: "0 < numeric_round amt" by blast
  from res have bal: "\<exists>u. select_user s d = Some u \<and> amt \<le> of_int (balance u)" by blast
  from bal obtain u where u: "select_user s d = Some u" "amt \<le> of_int (balance u)" by blast
  from pos have q: "0 < amt" by (rule numeric_round_pos)
  from tc have du: "distinct (map user_id (users d))"
    and dt: "distinct (map tx_id (transactions d))"
    and pa: "list_all (\<lambda>t. 0 < amount t) (transactions d)"
    by (simp_all add: table_constraints_def)
  have ids: "map user_id (users d') = map user_id (users d)"
    unfolding U by (induction "users d") simp_all
  have c: "table_constraints d'"
    using du dt pa fresh pos t ids
    by (auto simp: table_constraints_def T list_ex_iff)
  from inv have L: "\<And>i b e. (i, b, e) \<in> set (ledger d) \<Longrightarrow>
      e = held i (transactions d) \<and> 0 \<le> b \<and> 0 \<le> e"
    by (auto simp: escrow_invariant_ledger list_all_iff)
  have h: "held i (transactions d') = held i (transactions d) + (if s = i then numeric_round amt else 0)" for i
    by (simp add: T held_append t)
  have "escrow_invariant d'"
  proof (rule escrow_invariantI)
    fix i b e assume "(i, b, e) \<in> set (ledger d')"
    then obtain v where v: "v \<in> set (users d)" "user_id v = i"
      and be: "b = (if i = s then numeric_round (of_int (balance v) - amt) else balance v)"
              "e = (if i = s then numeric_round (of_int (escrow_balance v) + amt)
                    else escrow_balance v)"
      unfolding ledger_def U by (auto split: if_splits)
    from v have m: "(i, balance v, escrow_balance v) \<in> set (ledger d)"
      by (auto simp: ledger_def)
    note Lm = L [OF m]
    show "e = held i (transactions d') \<and> 0 \<le> b \<and> 0 \<le> e"
    proof (cases "i = s")
      case True
      from u(1) have "find (\<lambda>y. user_id y = s) (users d) = Some u" by (simp add: select_user_def)
      from find_distinct_unique [OF du this v(1)] v(2) True have "v = u" by simp
      with u(2) have "0 \<le> of_int (balance v) - amt" by simp
      then have b0: "0 \<le> numeric_round (of_int (balance v) - amt)" by (rule numeric_round_nonneg)
      from Lm q have "numeric_round (of_int (escrow_balance v) + amt)
          = escrow_balance v + numeric_round amt"
        by (intro numeric_round_add_int) simp_all
      with Lm be True b0 pos h [of i] show ?thesis by simp
    next
      case False
      with Lm be h [of i] show ?thesis by simp
    qed
  qed
  with c show ?thesis by simp
qed

lemma held_sweep:
  "held i (map (\<lambda>t. if expired now t
                      then t\<lparr>status := ''cancelled'', cancelled_at := c\<rparr> else t) ts)
   = held i ts - sent_total i (filter (expired now) ts)"
  by (induction ts) (auto simp: held_Cons sent_total_def held_def expired_def)

lemma sweep_preserves_invariant:
  assumes tc: "table_constraints d" and inv: "escrow_invariant d"
    and run: "process_expired_transactions now d = Inr d'"
  shows "table_constraints d' \<and> escrow_invariant d'"
proof -
  from tc have dt: "distinct (map tx_id (transactions d))"
    and pa: "list_all (\<lambda>t. 0 < amount t) (transactions d)"
    by (simp_all add: table_constraints_def)
  let ?S = "\<lambda>i. sent_total i (filter (expired now) (transactions d))"
  from sweep_Inr [OF dt run] have
    d': "transactions d' =
         map (\<lambda>t. if expired now t
                  then t\<lparr>status := ''cancelled'', cancelled_at := Some now\<rparr> else t)
           (transactions d)"
      "ledger d' = map (\<lambda>(i, b, e). (i, b + ?S i, e - ?S i)) (ledger d)"
    by simp_all
  have c: "table_constraints d'"
    by (rule table_constraints_update [OF tc d'(2) _ d'(1)]) (simp_all add: case_prod_beta)
  then have nn: "0 \<le> held i (transactions d')" for i
    by (simp add: table_constraints_def held_nonneg)
  have h: "held i (transactions d') = held i (transactions d) - ?S i" for i
    unfolding d'(1) by (simp add: held_sweep)
  have sn: "0 \<le> ?S i" for i
    using pa by (intro sent_total_nonneg) (auto simp: list_all_iff less_imp_le)
  from inv have L: "\<And>i b e. (i, b, e) \<in> set (ledger d) \<Longrightarrow>
      e = held i (transactions d) \<and> 0 \<le> b \<and> 0 \<le> e"
    by (auto simp: escrow_invariant_ledger list_all_iff)
  have "escrow_invariant d'"
  proof (rule escrow_invariantI)
    fix i b e assume "(i, b, e) \<in> set (ledger d')"
    then obtain b0 e0 where m: "(i, b0, e0) \<in> set (ledger d)"
      and be: "b = b0 + ?S i" "e = e0 - ?S i"
      unfolding d'(2) by auto
    from L [OF m] h [of i] nn [of i] sn [of i] be
    show "e = held i (transactions d') \<and> 0 \<le> b \<and> 0 \<le> e" by auto
  qed
  with c show ?thesis by blast
qed

lemma legal_operation_preserves_invariant:
  assumes tc: "table_constraints d" and inv: "escrow_invariant d" and legal: "legal_operation x d"
  shows "table_constraints (apply_operation x d) \<and> escrow_invariant (apply_operation x d)"
proof (cases x)
  case (Create rnd new_id now s r amt conds hrs)
  show ?thesis
  proof (cases "create_transaction_with_escrow rnd new_id now s r amt conds hrs d")
    case None
    with Create tc inv show ?thesis by simp
  next
    case (Some res)
    show ?thesis
    proof (cases res)
      case (Inl e)
      with Some Create tc inv show ?thesis by (simp add: committed_create_def)
    next
      case (Inr td)
      obtain t d' where td: "td = (t, d')" by (cases td)
      from Some Inr td create_preserves_invariant [OF tc inv, of rnd new_id now s r amt conds hrs t d']
      show ?thesis using Create by (simp add: committed_create_def)
    qed
  qed
next
  case (Update_status now p st)
  show ?thesis
  proof (cases "select_transaction p d")
    case None
    then have "update_transaction_status now p st d = Inl Transaction_not_found"
      by (rule update_not_found)
    with Update_status tc inv show ?thesis by (simp add: committed_def)
  next
    case (Some r)
    with legal Update_status consider (move) "legal_transition (status r) st"
      | (stay) "committed d (update_transaction_status now p st d) = d"
      by auto
    then show ?thesis
    proof cases
      case move
      show ?thesis
      proof (cases "update_transaction_status now p st d")
        case (Inl e)
        with Update_status tc inv show ?thesis by (simp add: committed_def)
      next
        case (Inr d')
        from update_preserves_invariant [OF tc inv Some move Inr]
        show ?thesis using Update_status Inr by (simp add: committed_def)
      qed
    next
      case stay
      with Update_status tc inv show ?thesis by simp
    qed
  qed
next
  case (Sweep now)
  show ?thesis
  proof (cases "process_expired_transactions now d")
    case (Inl e)
    with Sweep tc inv show ?thesis by (simp add: committed_def)
  next
    case (Inr d')
    from sweep_preserves_invariant [OF tc inv Inr]
    show ?thesis using Sweep Inr by (simp add: committed_def)
  qed
qed

lemma legal_run_preserves_invariant:
  "table_constraints d \<Longrightarrow> escrow_invariant d \<Longrightarrow> legal_run xs d \<Longrightarrow>
   table_constraints (run_operations xs d) \<and> escrow_invariant (run_operations xs d)"
proof (induction xs arbitrary: d)
  case Nil
  then show ?case by (simp add: run_operations_def)
next
  case (Cons x xs)
  from Cons.prems have l: "legal_operation x d" and r: "legal_run xs (apply_operation x d)"
    by simp_all
  from legal_operation_preserves_invariant [OF Cons.prems(1,2) l]
  have "table_constraints (apply_operation x d)" "escrow_invariant (apply_operation x d)"
    by simp_all
  from Cons.IH [OF this r] show ?case by (simp add: run_operations_def)
qed

lemma initial_state_invariant:
  "initial_state d \<Longrightarrow> table_constraints d \<and> escrow_invariant d"
  by (auto simp: initial_state_def table_constraints_def escrow_invariant_def held_def list_all_iff)

lemma escrow_invariant_legal_runs:
  assumes "initial_state d" and "legal_run xs d"
  shows "escrow_invariant (run_operations xs d)"
  using initial_state_invariant [OF assms(1)] legal_run_preserves_invariant [OF _ _ assms(2)]
  by simp

text \<open>
  Claim C3 asks that the escrow invariant holds in every state the three operations
  reach from an initial state. It holds along every run that stays inside the state
  machine, as shown above. From two new users Alice creates her sale, Bob accepts it, it
  is completed: a legal run, and the invariant holds. The sale is then cancelled, which
  is no transition of the state machine and which the procedure lets through: Alice's
  escrow balance is 500.00 below zero.
\<close>

theorem escrow_invariant_broken:
  "initial_state two_users
   \<and> legal_run
        [Create digests 10 0 1 2 50000 [\<lparr>description = ''goods delivered'', completed = False\<rparr>] 1,
         Update_status 60000000 10 ''accepted'',
         Update_status 120000000 10 ''completed''] two_users
   \<and> escrow_invariant
        (run_operations
          [Create digests 10 0 1 2 50000 [\<lparr>description = ''goods delivered'', completed = False\<rparr>] 1,
           Update_status 60000000 10 ''accepted'',
           Update_status 120000000 10 ''completed''] two_users)
   \<and> ledger
        (run_operations
          [Create digests 10 0 1 2 50000 [\<lparr>description = ''goods delivered'', completed = False\<rparr>] 1,
           Update_status 60000000 10 ''accepted'',
           Update_status 120000000 10 ''completed'',
           Update_status 180000000 10 ''cancelled''] two_users)
      = [(1, 100000, - 50000), (2, 150000, 0)]
   \<and> \<not> escrow_invariant
        (run_operations
          [Create digests 10 0 1 2 50000 [\<lparr>description = ''goods delivered'', completed = False\<rparr>] 1,
           Update_status 60000000 10 ''accepted'',
           Update_status 120000000 10 ''completed'',
           Update_status 180000000 10 ''cancelled''] two_users)"
  by code_simp

end
